theory Spec2Isabelle
  imports Main
begin

section \<open>JavaScript strings and numbers used by the node\<close>

text \<open>
  The node is TypeScript running on a JavaScript engine. Strings are modelled as lists of
  8-bit characters (each \<^typ>\<open>char\<close> read as one code unit below 256), and the engine's
  numbers as \<open>js_number\<close>: an integer-valued double, the two infinities, or NaN. Negative zero
  is identified with zero (both print as \<open>0\<close>).
\<close>

datatype js_number = Fin int | PosInf | NegInf | NaN

definition inRange :: "char \<Rightarrow> char \<Rightarrow> char \<Rightarrow> bool" where
  "inRange lo hi c = ((of_char lo :: int) \<le> of_char c \<and> (of_char c :: int) \<le> of_char hi)"

text \<open>The regular-expression classes \<^verbatim>\<open>\d\<close> and \<^verbatim>\<open>[a-fA-F0-9]\<close>.\<close>

definition digitClass :: "char \<Rightarrow> bool" where
  "digitClass c = inRange CHR ''0'' CHR ''9'' c"

definition hexClass :: "char \<Rightarrow> bool" where
  "hexClass c = (inRange CHR ''a'' CHR ''f'' c \<or> inRange CHR ''A'' CHR ''F'' c \<or> inRange CHR ''0'' CHR ''9'' c)"

text \<open>Value of a character as a digit in radix up to 36, as \<^verbatim>\<open>parseInt\<close> and \<^verbatim>\<open>BigInt\<close> read it.\<close>

definition digitValue :: "char \<Rightarrow> int option" where
  "digitValue c =
     (if inRange CHR ''0'' CHR ''9'' c then Some (of_char c - 48)
      else if inRange CHR ''a'' CHR ''z'' c then Some (of_char c - 87)
      else if inRange CHR ''A'' CHR ''Z'' c then Some (of_char c - 55)
      else None)"

definition isRadixDigit :: "int \<Rightarrow> char \<Rightarrow> bool" where
  "isRadixDigit r c = (case digitValue c of Some d \<Rightarrow> d < r | None \<Rightarrow> False)"

definition digitsValue :: "int \<Rightarrow> string \<Rightarrow> int" where
  "digitsValue r z = foldl (\<lambda>acc c. acc * r + (case digitValue c of Some d \<Rightarrow> d | None \<Rightarrow> 0)) 0 z"

text \<open>The digit characters \<^verbatim>\<open>Number.prototype.toString(radix)\<close> and \<^verbatim>\<open>BigInt.prototype.toString\<close> print.\<close>

definition digitChar :: "int \<Rightarrow> char" where
  "digitChar d = ''0123456789abcdefghijklmnopqrstuvwxyz'' ! nat d"

text \<open>The digits of a non-negative integer in radix \<open>r\<close>, most significant first.\<close>

function natToString :: "int \<Rightarrow> int \<Rightarrow> string" where
  "natToString r n =
     (if r < 2 \<or> n < 0 then []
      else if n < r then [digitChar n]
      else natToString r (n div r) @ [digitChar (n mod r)])"
  by pat_completeness auto
termination
  by (relation "measure (\<lambda>(r, n). nat n)") (auto simp: int_div_less_self)

declare natToString.simps [simp del]

subsection \<open>Rounding an integer to a double\<close>

function bitlen :: "int \<Rightarrow> nat" where
  "bitlen n = (if n \<le> 0 then 0 else Suc (bitlen (n div 2)))"
  by pat_completeness auto
termination
  by (relation "measure nat") auto

declare bitlen.simps [simp del]

text \<open>
  Round to nearest, ties to even, on a 53-bit significand; \<open>None\<close> is overflow to infinity
  (the rounded value would reach \<open>2 ^ 1024\<close>).
\<close>

definition roundDouble :: "int \<Rightarrow> int option" where
  "roundDouble n =
     (let k = bitlen n in
      if k \<le> 53 then Some n
      else
        let sh = k - 53;
            q = n div 2 ^ sh;
            r = n mod 2 ^ sh;
            h = 2 ^ (sh - 1);
            q' = (if r > h \<or> (r = h \<and> odd q) then q + 1 else q);
            v = q' * 2 ^ sh
        in if v \<ge> 2 ^ 1024 then None else Some v)"

definition toNumber :: "int \<Rightarrow> js_number" where
  "toNumber i =
     (case roundDouble \<bar>i\<bar> of
        None \<Rightarrow> (if i < 0 then NegInf else PosInf)
      | Some v \<Rightarrow> Fin (if i < 0 then - v else v))"

subsection \<open>parseInt and Number.prototype.toString(radix)\<close>

definition isWhiteSpace :: "char \<Rightarrow> bool" where
  "isWhiteSpace c = ((of_char c :: int) \<in> set [9, 10, 11, 12, 13, 32, 160])"

text \<open>
  \<^verbatim>\<open>parseInt(input, R)\<close> for an explicit radix \<open>R\<close> between 2 and 36: leading white space is
  skipped, a sign is read, for radix 16 a \<^verbatim>\<open>0x\<close> prefix is skipped, the longest prefix of
  digits of the radix is read, and its value is rounded to a double (correctly rounded also
  beyond 20 significant decimal digits, where an engine may approximate). No digit gives NaN.
\<close>

definition parseInt :: "string \<Rightarrow> int \<Rightarrow> js_number" where
  "parseInt input R =
     (let s = dropWhile isWhiteSpace input;
          neg = (take 1 s = ''-'');
          s1 = (if take 1 s = ''+'' \<or> take 1 s = ''-'' then drop 1 s else s);
          s2 = (if R = 16 \<and> (take 2 s1 = ''0x'' \<or> take 2 s1 = ''0X'') then drop 2 s1 else s1);
          z = takeWhile (isRadixDigit R) s2
      in if z = [] then NaN
         else toNumber (if neg then - digitsValue R z else digitsValue R z))"

text \<open>
  \<^verbatim>\<open>x.toString(r)\<close> for a radix other than 10. The digits of a finite value are those of
  the double's exact integer value (above \<open>2 ^ 53\<close> an engine may print zeros for the digits
  it does not represent).
\<close>

definition toStringRadix :: "js_number \<Rightarrow> int \<Rightarrow> string" where
  "toStringRadix x r =
     (case x of
        NaN \<Rightarrow> ''NaN''
      | PosInf \<Rightarrow> ''Infinity''
      | NegInf \<Rightarrow> ''-Infinity''
      | Fin n \<Rightarrow> (if n < 0 then ''-'' @ natToString r (- n) else natToString r n))"

subsection \<open>Number.prototype.toString() in radix 10\<close>

text \<open>
  The engine prints the shortest decimal digit string \<open>s\<close> (with \<open>k\<close> digits) and exponent
  \<open>ne\<close> such that \<open>s * 10 ^ (ne - k)\<close> rounds back to the double; among several it takes the
  one closest to the double, and the even one on a tie. Plain digits are printed up to
  \<open>ne = 21\<close>, exponent notation above.
\<close>

definition digitCandidates :: "int \<Rightarrow> nat \<Rightarrow> nat \<Rightarrow> int list" where
  "digitCandidates n nd k =
     (let scale = 10 ^ (nd - k); lo = n div scale
      in filter (\<lambda>s. 10 ^ (k - 1) \<le> s \<and> s < 10 ^ k \<and> roundDouble (s * scale) = Some n) [lo, lo + 1])"

fun pickClosest :: "int \<Rightarrow> int \<Rightarrow> int list \<Rightarrow> int" where
  "pickClosest n scale [lo, hi] =
     (if n - lo * scale < hi * scale - n then lo
      else if hi * scale - n < n - lo * scale then hi
      else if even lo then lo else hi)"
| "pickClosest n scale (s # _) = s"
| "pickClosest n scale [] = n"

definition shortestDigits :: "int \<Rightarrow> int \<times> nat" where
  "shortestDigits n =
     (let nd = length (natToString 10 n) in
      if roundDouble (10 ^ nd) = Some n then (1, Suc nd)
      else case List.find (\<lambda>k. digitCandidates n nd k \<noteq> []) [1..<Suc nd] of
             None \<Rightarrow> (n, nd)
           | Some k \<Rightarrow> (pickClosest n (10 ^ (nd - k)) (digitCandidates n nd k), nd))"

definition positiveToString :: "int \<Rightarrow> string" where
  "positiveToString n =
     (case shortestDigits n of (s, ne) \<Rightarrow>
        let ds = natToString 10 s; k = length ds in
        if ne \<le> 21 then ds @ replicate (ne - k) CHR ''0''
        else if k = 1 then ds @ ''e+'' @ natToString 10 (int ne - 1)
        else take 1 ds @ ''.'' @ drop 1 ds @ ''e+'' @ natToString 10 (int ne - 1))"

definition numberToString :: "js_number \<Rightarrow> string" where
  "numberToString x =
     (case x of
        NaN \<Rightarrow> ''NaN''
      | PosInf \<Rightarrow> ''Infinity''
      | NegInf \<Rightarrow> ''-Infinity''
      | Fin n \<Rightarrow> (if n = 0 then ''0''
                  else if n < 0 then ''-'' @ positiveToString (- n)
                  else positiveToString n))"

subsection \<open>Division of doubles and Number.prototype.toFixed\<close>

definition roundHalfEven :: "int \<Rightarrow> int \<Rightarrow> int" where
  "roundHalfEven num den =
     (let q = num div den; r = num mod den
      in if 2 * r > den \<or> (2 * r = den \<and> odd q) then q + 1 else q)"

definition roundHalfUp :: "int \<Rightarrow> int \<Rightarrow> int" where
  "roundHalfUp num den = (2 * num + den) div (2 * den)"

text \<open>
  The double nearest to \<open>a / b\<close> for integers \<open>a \<ge> 0\<close> and \<open>b > 0\<close>, as a pair \<open>(m, e)\<close>
  standing for \<open>m * 2 ^ e\<close> with a 53-bit \<open>m\<close>. The quotients formed by the node are at least
  \<open>10 ^ - 18\<close> and below \<open>2 ^ 1024\<close>, so neither subnormal numbers nor overflow arise.
\<close>

definition divDouble :: "int \<Rightarrow> int \<Rightarrow> int \<times> int" where
  "divDouble a b =
     (if a = 0 then (0, 0)
      else
        let E = int (bitlen a) - int (bitlen b);
            E' = (if (if E \<ge> 0 then a \<ge> b * 2 ^ nat E else a * 2 ^ nat (- E) \<ge> b) then E else E - 1);
            e = E' - 52;
            m = (if e \<ge> 0 then roundHalfEven a (b * 2 ^ nat e) else roundHalfEven (a * 2 ^ nat (- e)) b)
        in (m, e))"

text \<open>\<^verbatim>\<open>x.toFixed(fd)\<close> for a double \<open>x = m * 2 ^ e \<ge> 0\<close>.\<close>

definition toFixedPos :: "int \<times> int \<Rightarrow> nat \<Rightarrow> string" where
  "toFixedPos x fd =
     (case x of (m, e) \<Rightarrow>
        if e \<ge> 0 \<and> m * 2 ^ nat e \<ge> 10 ^ 21 then numberToString (Fin (m * 2 ^ nat e))
        else
          let n = (if e \<ge> 0 then m * 2 ^ nat e * 10 ^ fd else roundHalfUp (m * 10 ^ fd) (2 ^ nat (- e)));
              ds = natToString 10 n;
              ds' = (if length ds \<le> fd then replicate (fd + 1 - length ds) CHR ''0'' @ ds else ds)
          in if fd = 0 then ds'
             else take (length ds' - fd) ds' @ ''.'' @ drop (length ds' - fd) ds')"

text \<open>\<^verbatim>\<open>(Number(w) / 1e<d>).toFixed(d)\<close> for a BigInt \<open>w\<close>, as used for \<open>d = 18\<close> and \<open>d = 9\<close>.\<close>

definition scaledFixed :: "int \<Rightarrow> nat \<Rightarrow> string" where
  "scaledFixed w d =
     (case toNumber w of
        NaN \<Rightarrow> ''NaN''
      | PosInf \<Rightarrow> ''Infinity''
      | NegInf \<Rightarrow> ''-Infinity''
      | Fin a \<Rightarrow> (if a < 0 then ''-'' @ toFixedPos (divDouble (- a) (10 ^ d)) d
                  else toFixedPos (divDouble a (10 ^ d)) d))"

subsection \<open>BigInt\<close>

definition bigIntToString :: "int \<Rightarrow> string" where
  "bigIntToString w = (if w < 0 then ''-'' @ natToString 10 (- w) else natToString 10 w)"

definition trimString :: "string \<Rightarrow> string" where
  "trimString s = rev (dropWhile isWhiteSpace (rev (dropWhile isWhiteSpace s)))"

definition radixLiteral :: "int \<Rightarrow> string \<Rightarrow> int option" where
  "radixLiteral r ds = (if ds \<noteq> [] \<and> list_all (isRadixDigit r) ds then Some (digitsValue r ds) else None)"

text \<open>
  \<^verbatim>\<open>StringToBigInt\<close>: surrounding white space is dropped, the empty string is zero, a
  \<^verbatim>\<open>0x\<close>, \<^verbatim>\<open>0o\<close> or \<^verbatim>\<open>0b\<close> prefix selects the radix, and only a decimal literal may carry a
  sign. \<open>None\<close> is the SyntaxError.
\<close>

definition stringToBigInt :: "string \<Rightarrow> int option" where
  "stringToBigInt str =
     (let t = trimString str in
      if t = [] then Some 0
      else if take 2 t = ''0x'' \<or> take 2 t = ''0X'' then radixLiteral 16 (drop 2 t)
      else if take 2 t = ''0o'' \<or> take 2 t = ''0O'' then radixLiteral 8 (drop 2 t)
      else if take 2 t = ''0b'' \<or> take 2 t = ''0B'' then radixLiteral 2 (drop 2 t)
      else if take 1 t = ''-'' then map_option uminus (radixLiteral 10 (drop 1 t))
      else if take 1 t = ''+'' then radixLiteral 10 (drop 1 t)
      else radixLiteral 10 t)"

section \<open>JavaScript values and errors\<close>

text \<open>
  Values that cross the node's interfaces: parsed JSON (objects as association lists with
  distinct keys, in insertion order), \<^verbatim>\<open>undefined\<close> for an absent property, and the numbers the
  node computes. JSON numbers are taken to be integer-valued.
\<close>

datatype jsv =
    VUndefined
  | VNull
  | VBool bool
  | VNum js_number
  | VStr string
  | VArr "jsv list"
  | VObj "(string \<times> jsv) list"

text \<open>
  Errors thrown during execution. \<open>NodeOperationError\<close> and \<open>NodeApiError\<close> are the host
  library's classes and carry what the node passes to their constructors (message and item
  index; message, description, code and item index). \<open>RequestError\<close> is whatever the host's
  HTTP helper throws. The others are the engine's own errors.
\<close>

datatype js_error =
    NodeOperationError string "nat option"
  | NodeApiError jsv string jsv nat
  | RequestError string
  | TypeError string
  | SyntaxError string
  | RangeError string

fun errorMessage :: "js_error \<Rightarrow> jsv" where
  "errorMessage (NodeOperationError m _) = VStr m"
| "errorMessage (NodeApiError m _ _ _) = m"
| "errorMessage (RequestError m) = VStr m"
| "errorMessage (TypeError m) = VStr m"
| "errorMessage (SyntaxError m) = VStr m"
| "errorMessage (RangeError m) = VStr m"

text \<open>Truthiness, as tested by \<^verbatim>\<open>if (v)\<close>, \<^verbatim>\<open>v && w\<close> and \<^verbatim>\<open>v || w\<close>.\<close>

fun truthy :: "jsv \<Rightarrow> bool" where
  "truthy VUndefined = False"
| "truthy VNull = False"
| "truthy (VBool b) = b"
| "truthy (VNum x) = (case x of Fin n \<Rightarrow> n \<noteq> 0 | NaN \<Rightarrow> False | _ \<Rightarrow> True)"
| "truthy (VStr s) = (s \<noteq> [])"
| "truthy (VArr _) = True"
| "truthy (VObj _) = True"

text \<open>
  Reading one of the properties the node reads (\<^verbatim>\<open>error\<close>, \<^verbatim>\<open>result\<close>, \<^verbatim>\<open>message\<close>,
  \<^verbatim>\<open>code\<close>) from a value that is neither \<^verbatim>\<open>null\<close> nor \<^verbatim>\<open>undefined\<close>: only an object can
  carry it.
\<close>

fun getProp :: "jsv \<Rightarrow> string \<Rightarrow> jsv" where
  "getProp (VObj kvs) k = (case map_of kvs k of Some v \<Rightarrow> v | None \<Rightarrow> VUndefined)"
| "getProp _ k = VUndefined"

text \<open>\<^verbatim>\<open>Array.isArray\<close>, and the elements of an array.\<close>

fun isArray :: "jsv \<Rightarrow> bool" where
  "isArray (VArr _) = True"
| "isArray _ = False"

fun arrayElements :: "jsv \<Rightarrow> jsv list" where
  "arrayElements (VArr xs) = xs"
| "arrayElements _ = []"

fun joinWith :: "string \<Rightarrow> string list \<Rightarrow> string" where
  "joinWith sep [] = []"
| "joinWith sep [x] = x"
| "joinWith sep (x # y # ys) = x @ sep @ joinWith sep (y # ys)"

text \<open>\<^verbatim>\<open>ToString\<close>, as applied by template literals, \<^verbatim>\<open>parseInt\<close> and \<^verbatim>\<open>BigInt\<close>.\<close>

fun js_ToString :: "jsv \<Rightarrow> string" where
  "js_ToString VUndefined = ''undefined''"
| "js_ToString VNull = ''null''"
| "js_ToString (VBool b) = (if b then ''true'' else ''false'')"
| "js_ToString (VNum x) = numberToString x"
| "js_ToString (VStr s) = s"
| "js_ToString (VArr xs) =
     joinWith '','' (map (\<lambda>x. if x = VUndefined \<or> x = VNull then [] else js_ToString x) xs)"
| "js_ToString (VObj kvs) = ''[object Object]''"

text \<open>\<^verbatim>\<open>BigInt(v)\<close>.\<close>

definition bigIntOfString :: "string \<Rightarrow> js_error + int" where
  "bigIntOfString s =
     (case stringToBigInt s of
        None \<Rightarrow> Inl (SyntaxError (''Cannot convert '' @ s @ '' to a BigInt''))
      | Some w \<Rightarrow> Inr w)"

fun toBigInt :: "jsv \<Rightarrow> js_error + int" where
  "toBigInt VUndefined = Inl (TypeError ''Cannot convert undefined to a BigInt'')"
| "toBigInt VNull = Inl (TypeError ''Cannot convert null to a BigInt'')"
| "toBigInt (VBool b) = Inr (if b then 1 else 0)"
| "toBigInt (VNum (Fin n)) = Inr n"
| "toBigInt (VNum x) =
     Inl (RangeError (''The number '' @ numberToString x @ '' cannot be converted to a BigInt because it is not an integer''))"
| "toBigInt (VStr s) = bigIntOfString s"
| "toBigInt (VArr xs) = bigIntOfString (js_ToString (VArr xs))"
| "toBigInt (VObj kvs) = bigIntOfString (js_ToString (VObj kvs))"

section \<open>Helpers of the node\<close>

text \<open>The pattern \<^verbatim>\<open>/^0x[a-fA-F0-9]{n}$/\<close>.\<close>

definition matches0xHex :: "nat \<Rightarrow> string \<Rightarrow> bool" where
  "matches0xHex n s = (take 2 s = ''0x'' \<and> length (drop 2 s) = n \<and> list_all hexClass (drop 2 s))"

definition isValidAddress :: "string \<Rightarrow> bool" where
  "isValidAddress address = matches0xHex 40 address"

definition isValidTxHash :: "string \<Rightarrow> bool" where
  "isValidTxHash hash = matches0xHex 64 hash"

definition toBlockTag :: "string \<Rightarrow> string" where
  "toBlockTag block =
     (if block \<in> set [''latest'', ''earliest'', ''pending'', ''safe'', ''finalized''] then block
      else if block \<noteq> [] \<and> list_all digitClass block
        then ''0x'' @ toStringRadix (parseInt block 10) 16
      else block)"

section \<open>The execution context\<close>

text \<open>
  What the host and the engine provide to \<^verbatim>\<open>execute\<close>: the HTTP helper (which returns the
  parsed response body or throws), \<^verbatim>\<open>JSON.parse\<close> (which returns the parsed value or throws a
  SyntaxError with a message), and the node's continue-on-fail setting.
\<close>

record rpc_body =
  jsonrpc :: string
  body_method :: string
  body_params :: "jsv list"
  body_id :: nat

record http_options =
  http_method :: string
  url :: string
  content_type :: string
  body :: rpc_body
  json_flag :: bool

record node_context =
  httpRequest :: "http_options \<Rightarrow> js_error + jsv"
  jsonParse :: "string \<Rightarrow> string + jsv"
  continueOnFail :: bool

text \<open>
  The parameters of one input item, as \<^verbatim>\<open>getNodeParameter(name, i)\<close> resolves them. A
  parameter read with a fallback is optional; \<open>None\<close> makes the node use the fallback.
  The credentials are what \<^verbatim>\<open>getCredentials\<close> returns. Failures of the host while it
  resolves a parameter or the credentials are not part of the model.
\<close>

record node_params =
  operation :: string
  address :: string
  block :: "string option"
  blockIdentifier :: string
  fullTransactions :: bool
  txHash :: string
  param_to :: string
  param_from :: "string option"
  param_data :: "string option"
  param_value :: "string option"
  rpcMethod :: string
  rpcParams :: "string option"

record credentials =
  rpcEndpoint :: "string option"
  network :: jsv

record out_item =
  json :: "(string \<times> jsv) list"
  pairedItem :: nat

section \<open>execute: building the request\<close>

definition withDefault :: "'a option \<Rightarrow> 'a \<Rightarrow> 'a" where
  "withDefault v d = (case v of None \<Rightarrow> d | Some x \<Rightarrow> x)"

definition itemError :: "string \<Rightarrow> nat \<Rightarrow> js_error" where
  "itemError msg i = NodeOperationError msg (Some i)"

definition invalidAddressMessage :: "string \<Rightarrow> string" where
  "invalidAddressMessage a = ''Invalid Ethereum address: '' @ a @ ''. Must be 42 characters starting with 0x''"

definition invalidToMessage :: "string \<Rightarrow> string" where
  "invalidToMessage a = ''Invalid 'to' address: '' @ a @ ''. Must be 42 characters starting with 0x''"

definition invalidFromMessage :: "string \<Rightarrow> string" where
  "invalidFromMessage a = ''Invalid 'from' address: '' @ a @ ''. Must be 42 characters starting with 0x''"

definition invalidHashMessage :: "string \<Rightarrow> string" where
  "invalidHashMessage h = ''Invalid transaction hash: '' @ h @ ''. Must be 66 characters starting with 0x''"

text \<open>The transaction object of \<^verbatim>\<open>estimateGas\<close> and \<^verbatim>\<open>call\<close>, before \<^verbatim>\<open>value\<close> is added.\<close>

definition txObjectBase :: "string \<Rightarrow> string \<Rightarrow> string \<Rightarrow> (string \<times> jsv) list" where
  "txObjectBase to from data =
     [(''to'', VStr to)]
     @ (if from \<noteq> [] then [(''from'', VStr from)] else [])
     @ (if data \<noteq> [] then [(''data'', VStr data)] else [])"

definition valueField :: "string \<Rightarrow> (string \<times> jsv) list" where
  "valueField v =
     (if v \<noteq> [] \<and> v \<noteq> ''0''
      then [(''value'', VStr (if take 2 v = ''0x'' then v else ''0x'' @ toStringRadix (parseInt v 10) 16))]
      else [])"

definition addressAndBlock :: "string \<Rightarrow> nat \<Rightarrow> node_params \<Rightarrow> js_error + string \<times> jsv list" where
  "addressAndBlock m i p =
     (if \<not> isValidAddress (address p) then Inl (itemError (invalidAddressMessage (address p)) i)
      else Inr (m, [VStr (address p), VStr (toBlockTag (withDefault (block p) ''latest''))]))"

definition hashOnly :: "string \<Rightarrow> nat \<Rightarrow> node_params \<Rightarrow> js_error + string \<times> jsv list" where
  "hashOnly m i p =
     (if \<not> isValidTxHash (txHash p) then Inl (itemError (invalidHashMessage (txHash p)) i)
      else Inr (m, [VStr (txHash p)]))"

text \<open>The \<^verbatim>\<open>switch (operation)\<close> of \<^verbatim>\<open>execute\<close>: the JSON-RPC method and parameters, or the error thrown.\<close>

definition buildRequest :: "node_context \<Rightarrow> nat \<Rightarrow> node_params \<Rightarrow> js_error + string \<times> jsv list" where
  "buildRequest ctx i p =
     (if operation p = ''getBalance'' then addressAndBlock ''eth_getBalance'' i p
      else if operation p = ''getBlockNumber'' then Inr (''eth_blockNumber'', [])
      else if operation p = ''getBlock'' then
        (if matches0xHex 64 (blockIdentifier p)
         then Inr (''eth_getBlockByHash'', [VStr (blockIdentifier p), VBool (fullTransactions p)])
         else Inr (''eth_getBlockByNumber'', [VStr (toBlockTag (blockIdentifier p)), VBool (fullTransactions p)]))
      else if operation p = ''getTransaction'' then hashOnly ''eth_getTransactionByHash'' i p
      else if operation p = ''getTransactionReceipt'' then hashOnly ''eth_getTransactionReceipt'' i p
      else if operation p = ''getTransactionCount'' then addressAndBlock ''eth_getTransactionCount'' i p
      else if operation p = ''getCode'' then addressAndBlock ''eth_getCode'' i p
      else if operation p = ''getGasPrice'' then Inr (''eth_gasPrice'', [])
      else if operation p = ''estimateGas'' then
        (let to = param_to p;
             from = withDefault (param_from p) [];
             data = withDefault (param_data p) [];
             value = withDefault (param_value p) ''0''
         in if \<not> isValidAddress to then Inl (itemError (invalidToMessage to) i)
            else if from \<noteq> [] \<and> \<not> isValidAddress from then Inl (itemError (invalidFromMessage from) i)
            else Inr (''eth_estimateGas'', [VObj (txObjectBase to from data @ valueField value)]))
      else if operation p = ''call'' then
        (let to = param_to p;
             from = withDefault (param_from p) [];
             data = withDefault (param_data p) [];
             block = withDefault (block p) ''latest''
         in if \<not> isValidAddress to then Inl (itemError (invalidToMessage to) i)
            else if from \<noteq> [] \<and> \<not> isValidAddress from then Inl (itemError (invalidFromMessage from) i)
            else Inr (''eth_call'', [VObj (txObjectBase to from data), VStr (toBlockTag block)]))
      else if operation p = ''customRpc'' then
        (case jsonParse ctx (withDefault (rpcParams p) ''[]'') of
           Inl parseError \<Rightarrow> Inl (itemError (''Invalid JSON parameters: '' @ parseError) i)
         | Inr params \<Rightarrow>
             if \<not> isArray params
             then Inl (itemError (''Invalid JSON parameters: '' @ ''Parameters must be a JSON array'') i)
             else Inr (rpcMethod p, arrayElements params))
      else Inl (itemError (''Unknown operation: '' @ operation p) i))"

section \<open>execute: the call and the shaping of the result\<close>

definition bindResult :: "'e + 'a \<Rightarrow> ('a \<Rightarrow> 'e + 'b) \<Rightarrow> 'e + 'b" where
  "bindResult r f = (case r of Inl e \<Rightarrow> Inl e | Inr x \<Rightarrow> f x)"

text \<open>Assignment to a property of an object: an existing key keeps its place, a new key is added last.\<close>

fun setProp :: "(string \<times> jsv) list \<Rightarrow> string \<Rightarrow> jsv \<Rightarrow> (string \<times> jsv) list" where
  "setProp [] k v = [(k, v)]"
| "setProp ((k', v') # kvs) k v = (if k' = k then (k, v) # kvs else (k', v') # setProp kvs k v)"

text \<open>The BigInt conversions of \<^verbatim>\<open>getBalance\<close> and \<^verbatim>\<open>getGasPrice\<close>.\<close>

definition addScaled ::
    "string \<Rightarrow> string \<Rightarrow> nat \<Rightarrow> jsv \<Rightarrow> (string \<times> jsv) list \<Rightarrow> js_error + (string \<times> jsv) list" where
  "addScaled weiKey scaledKey d result resultData =
     bindResult (toBigInt result)
       (\<lambda>w. Inr (setProp (setProp resultData weiKey (VStr (bigIntToString w)))
                    scaledKey (VStr (scaledFixed w d))))"

definition addDecimal :: "string \<Rightarrow> jsv \<Rightarrow> (string \<times> jsv) list \<Rightarrow> (string \<times> jsv) list" where
  "addDecimal key result resultData = setProp resultData key (VNum (parseInt (js_ToString result) 16))"

definition shapeResult :: "string \<Rightarrow> string \<Rightarrow> jsv \<Rightarrow> jsv \<Rightarrow> js_error + (string \<times> jsv) list" where
  "shapeResult op method net result =
     bindResult (Inr [(''result'', result), (''method'', VStr method), (''network'', net)]) (\<lambda>d0.
     bindResult (if op = ''getBalance'' \<and> truthy result
                 then addScaled ''balanceWei'' ''balanceEth'' 18 result d0 else Inr d0) (\<lambda>d1.
     bindResult (Inr (if op = ''getBlockNumber'' \<and> truthy result
                      then addDecimal ''blockNumberDecimal'' result d1 else d1)) (\<lambda>d2.
     bindResult (if op = ''getGasPrice'' \<and> truthy result
                 then addScaled ''gasPriceWei'' ''gasPriceGwei'' 9 result d2 else Inr d2) (\<lambda>d3.
     bindResult (Inr (if op = ''getTransactionCount'' \<and> truthy result
                      then addDecimal ''transactionCountDecimal'' result d3 else d3)) (\<lambda>d4.
     Inr (if op = ''estimateGas'' \<and> truthy result
          then addDecimal ''gasEstimateDecimal'' result d4 else d4))))))"

text \<open>What follows the \<^verbatim>\<open>await\<close> of the HTTP call: the RPC error check, then the shaping.\<close>

definition rpcError :: "string \<Rightarrow> jsv \<Rightarrow> nat \<Rightarrow> js_error" where
  "rpcError method err i =
     NodeApiError
       (if truthy (getProp err ''message'') then getProp err ''message'' else VStr ''RPC Error'')
       (''RPC method '' @ method @ '' failed: '' @ js_ToString (getProp err ''message''))
       (getProp err ''code'')
       i"

definition handleResponse :: "string \<Rightarrow> string \<Rightarrow> jsv \<Rightarrow> nat \<Rightarrow> jsv \<Rightarrow> js_error + (string \<times> jsv) list" where
  "handleResponse op method net i response =
     (if response = VNull \<or> response = VUndefined
      then Inl (TypeError (''Cannot read properties of '' @ js_ToString response @ '' (reading 'error')''))
      else if truthy (getProp response ''error'') then Inl (rpcError method (getProp response ''error'') i)
      else shapeResult op method net (getProp response ''result''))"

definition makeRequest :: "string \<Rightarrow> string \<Rightarrow> jsv list \<Rightarrow> nat \<Rightarrow> http_options" where
  "makeRequest endpoint method params i =
     \<lparr>http_method = ''POST'', url = endpoint, content_type = ''application/json'',
      body = \<lparr>jsonrpc = ''2.0'', body_method = method, body_params = params, body_id = i + 1\<rparr>,
      json_flag = True\<rparr>"

text \<open>
  The body of the \<^verbatim>\<open>try\<close> block for item \<open>i\<close>: the requests sent to the endpoint (none or
  one), and the result data or the error thrown.
\<close>

definition processItem ::
    "node_context \<Rightarrow> string \<Rightarrow> jsv \<Rightarrow> nat \<Rightarrow> node_params \<Rightarrow> http_options list \<times> (js_error + (string \<times> jsv) list)" where
  "processItem ctx endpoint net i p =
     (case buildRequest ctx i p of
        Inl e \<Rightarrow> ([], Inl e)
      | Inr (method, params) \<Rightarrow>
          (let request = makeRequest endpoint method params i in
           case httpRequest ctx request of
             Inl e \<Rightarrow> ([request], Inl e)
           | Inr response \<Rightarrow> ([request], handleResponse (operation p) method net i response)))"

section \<open>execute: the loop over the items\<close>

text \<open>
  The \<^verbatim>\<open>for\<close> loop with its \<^verbatim>\<open>try\<close>/\<^verbatim>\<open>catch\<close>, from index \<open>i\<close> on, threading the requests sent
  so far and \<^verbatim>\<open>returnData\<close>. The result is the log of requests and either the error that
  left the loop or the final \<^verbatim>\<open>returnData\<close>.
\<close>

fun runItems ::
    "node_context \<Rightarrow> string \<Rightarrow> jsv \<Rightarrow> nat \<Rightarrow> node_params list \<Rightarrow> http_options list \<Rightarrow> out_item list
      \<Rightarrow> http_options list \<times> (js_error + out_item list)" where
  "runItems ctx endpoint net i [] sent returnData = (sent, Inr returnData)"
| "runItems ctx endpoint net i (p # ps) sent returnData =
     (case processItem ctx endpoint net i p of
        (reqs, Inr resultData) \<Rightarrow>
          runItems ctx endpoint net (Suc i) ps (sent @ reqs)
            (returnData @ [\<lparr>json = resultData, pairedItem = i\<rparr>])
      | (reqs, Inl error) \<Rightarrow>
          if continueOnFail ctx
          then runItems ctx endpoint net (Suc i) ps (sent @ reqs)
                 (returnData @ [\<lparr>json = [(''error'', errorMessage error)], pairedItem = i\<rparr>])
          else (sent @ reqs, Inl error))"

definition execute ::
    "node_context \<Rightarrow> credentials \<Rightarrow> node_params list \<Rightarrow> http_options list \<times> (js_error + out_item list list)" where
  "execute ctx creds items =
     (case rpcEndpoint creds of
        None \<Rightarrow> ([], Inl (NodeOperationError ''RPC endpoint is required in credentials'' None))
      | Some endpoint \<Rightarrow>
          if endpoint = [] then ([], Inl (NodeOperationError ''RPC endpoint is required in credentials'' None))
          else (case runItems ctx endpoint (network creds) 0 items [] [] of
                  (sent, Inl error) \<Rightarrow> (sent, Inl error)
                | (sent, Inr returnData) \<Rightarrow> (sent, Inr [returnData])))"

section \<open>Notions used to state the properties\<close>

text \<open>The digits of a lowercase hexadecimal numeral.\<close>

definition lowerHexClass :: "char \<Rightarrow> bool" where
  "lowerHexClass c = (inRange CHR ''0'' CHR ''9'' c \<or> inRange CHR ''a'' CHR ''f'' c)"

text \<open>
  The exact quotient of a non-negative integer by \<open>10 ^ d\<close>, written with \<open>d\<close> fractional
  digits.
\<close>

definition exactScaled :: "int \<Rightarrow> nat \<Rightarrow> string" where
  "exactScaled w d =
     natToString 10 (w div 10 ^ d) @ ''.'' @
     replicate (d - length (natToString 10 (w mod 10 ^ d))) CHR ''0'' @ natToString 10 (w mod 10 ^ d)"

text \<open>
  The record emitted for item \<open>k\<close> in failure-tolerant mode: \<^verbatim>\<open>{error: message}\<close> for a failed
  item, the result data for a successful one, each paired with the item's index.
\<close>

definition itemRecord :: "nat \<Rightarrow> js_error + (string \<times> jsv) list \<Rightarrow> out_item" where
  "itemRecord k outcome =
     (case outcome of
        Inl error \<Rightarrow> \<lparr>json = [(''error'', errorMessage error)], pairedItem = k\<rparr>
      | Inr resultData \<Rightarrow> \<lparr>json = resultData, pairedItem = k\<rparr>)"

definition succeeded :: "'e + 'a \<Rightarrow> bool" where
  "succeeded outcome = (case outcome of Inl _ \<Rightarrow> False | Inr _ \<Rightarrow> True)"

text \<open>
  A concrete environment and concrete items on which the statements below are evaluated.
  The endpoint answers \<^verbatim>\<open>eth_getBalance\<close> with one ether (with \<open>10 ^ 15\<close> wei for the second
  address, \<open>10 ^ 39\<close> wei for the third), \<^verbatim>\<open>eth_blockNumber\<close> with block 16,
  \<^verbatim>\<open>eth_gasPrice\<close> with a null result, \<^verbatim>\<open>eth_call\<close> with a JSON-RPC error and
  \<^verbatim>\<open>eth_getLogs\<close> with an empty list; any other call fails in transport.
\<close>

definition exampleAddress :: string where
  "exampleAddress = ''0x52908400098527886E0F7030069857D2E4169EE7''"

definition exampleAddress2 :: string where
  "exampleAddress2 = ''0xde709f2102306220921060314715629080e2fb77''"

definition exampleAddress3 :: string where
  "exampleAddress3 = ''0x27b1fdb04752bbc536007a920d24acb045561c26''"

definition exampleReply :: "jsv \<Rightarrow> http_options \<Rightarrow> jsv" where
  "exampleReply payload r =
     VObj ([(''jsonrpc'', VStr ''2.0''), (''id'', VNum (Fin (int (body_id (body r)))))] @
           (case payload of VObj kvs \<Rightarrow> kvs | _ \<Rightarrow> []))"

definition exampleEndpoint :: "http_options \<Rightarrow> js_error + jsv" where
  "exampleEndpoint r =
     (let m = body_method (body r) in
      if m = ''eth_getBalance'' then
        Inr (exampleReply (VObj [(''result'',
               VStr (if take 1 (body_params (body r)) = [VStr exampleAddress2] then ''0x38d7ea4c68000''
                     else if take 1 (body_params (body r)) = [VStr exampleAddress3] then ''0x2f050fe938943acc45f65568000000000''
                     else ''0xde0b6b3a7640000''))]) r)
      else if m = ''eth_blockNumber'' then Inr (exampleReply (VObj [(''result'', VStr ''0x10'')]) r)
      else if m = ''eth_gasPrice'' then Inr (exampleReply (VObj [(''result'', VNull)]) r)
      else if m = ''eth_call'' then
        Inr (exampleReply (VObj [(''error'', VObj [(''code'', VNum (Fin 3)), (''message'', VStr ''execution reverted'')])]) r)
      else if m = ''eth_getLogs'' then Inr (exampleReply (VObj [(''result'', VArr [])]) r)
      else Inl (RequestError ''connect ECONNREFUSED''))"

text \<open>
  The \<^verbatim>\<open>JSON.parse\<close> of the example environment: a parser for JSON texts whose numbers are
  integers and whose strings use no \<^verbatim>\<open>\u\<close> escapes; of a repeated key the last value is
  kept. The first argument of the parsing functions bounds the depth of the recursion.
\<close>

definition jsonWs :: "string \<Rightarrow> string" where
  "jsonWs s = dropWhile (\<lambda>c. (of_char c :: int) \<in> set [32, 9, 10, 13]) s"

definition unescape :: "char \<Rightarrow> char option" where
  "unescape c =
     (if c = CHR 0x22 \<or> c = CHR 0x5C \<or> c = CHR ''/'' then Some c
      else if c = CHR ''b'' then Some (CHR 0x08)
      else if c = CHR ''f'' then Some (CHR 0x0C)
      else if c = CHR ''n'' then Some (CHR 0x0A)
      else if c = CHR ''r'' then Some (CHR 0x0D)
      else if c = CHR ''t'' then Some (CHR 0x09)
      else None)"

fun parseStringBody :: "string \<Rightarrow> (string \<times> string) option" where
  "parseStringBody [] = None"
| "parseStringBody (c # cs) =
     (if c = CHR 0x22 then Some ([], cs)
      else if c = CHR 0x5C then
        (case cs of
           [] \<Rightarrow> None
         | e # cs' \<Rightarrow>
             (case unescape e of
                None \<Rightarrow> None
              | Some ch \<Rightarrow> map_option (\<lambda>(str, rest). (ch # str, rest)) (parseStringBody cs')))
      else if (of_char c :: int) < 32 then None
      else map_option (\<lambda>(str, rest). (c # str, rest)) (parseStringBody cs))"

definition parseNumber :: "string \<Rightarrow> (jsv \<times> string) option" where
  "parseNumber s =
     (let neg = (take 1 s = ''-'');
          t = (if neg then drop 1 s else s);
          ds = takeWhile digitClass t;
          rest = dropWhile digitClass t
      in if ds = [] \<or> (length ds > 1 \<and> take 1 ds = ''0'') then None
         else if take 1 rest = ''.'' \<or> take 1 rest = ''e'' \<or> take 1 rest = ''E'' then None
         else Some (VNum (toNumber (if neg then - digitsValue 10 ds else digitsValue 10 ds)), rest))"

fun parseValue :: "nat \<Rightarrow> string \<Rightarrow> (jsv \<times> string) option"
  and parseElements :: "nat \<Rightarrow> string \<Rightarrow> (jsv list \<times> string) option"
  and parseMembers :: "nat \<Rightarrow> string \<Rightarrow> ((string \<times> jsv) list \<times> string) option" where
  "parseValue 0 s = None"
| "parseValue (Suc n) s =
     (let t = jsonWs s in
      if take 4 t = ''null'' then Some (VNull, drop 4 t)
      else if take 4 t = ''true'' then Some (VBool True, drop 4 t)
      else if take 5 t = ''false'' then Some (VBool False, drop 5 t)
      else if take 1 t = [CHR 0x22] then map_option (\<lambda>(str, rest). (VStr str, rest)) (parseStringBody (drop 1 t))
      else if take 1 t = ''['' then
        (let u = jsonWs (drop 1 t) in
         if take 1 u = '']'' then Some (VArr [], drop 1 u)
         else map_option (\<lambda>(vs, rest). (VArr vs, rest)) (parseElements n u))
      else if take 1 t = ''{'' then
        (let u = jsonWs (drop 1 t) in
         if take 1 u = ''}'' then Some (VObj [], drop 1 u)
         else map_option (\<lambda>(kvs, rest). (VObj kvs, rest)) (parseMembers n u))
      else parseNumber t)"
| "parseElements 0 s = None"
| "parseElements (Suc n) s =
     (case parseValue n s of
        None \<Rightarrow> None
      | Some (v, rest) \<Rightarrow>
          (let u = jsonWs rest in
           if take 1 u = '','' then map_option (\<lambda>(vs, rest'). (v # vs, rest')) (parseElements n (drop 1 u))
           else if take 1 u = '']'' then Some ([v], drop 1 u)
           else None))"
| "parseMembers 0 s = None"
| "parseMembers (Suc n) s =
     (let t = jsonWs s in
      if take 1 t \<noteq> [CHR 0x22] then None
      else
        (case parseStringBody (drop 1 t) of
           None \<Rightarrow> None
         | Some (key, rest) \<Rightarrow>
             (let u = jsonWs rest in
              if take 1 u \<noteq> '':'' then None
              else
                (case parseValue n (drop 1 u) of
                   None \<Rightarrow> None
                 | Some (v, rest') \<Rightarrow>
                     (let w = jsonWs rest' in
                      if take 1 w = '','' then
                        map_option (\<lambda>(kvs, rest'').
                            ((key, case map_of kvs key of None \<Rightarrow> v | Some v' \<Rightarrow> v')
                               # filter (\<lambda>(k, _). k \<noteq> key) kvs, rest''))
                          (parseMembers n (drop 1 w))
                      else if take 1 w = ''}'' then Some ([(key, v)], drop 1 w)
                      else None)))))"

definition exampleParse :: "string \<Rightarrow> string + jsv" where
  "exampleParse text =
     (case parseValue (Suc (length text)) text of
        None \<Rightarrow> Inl ''Unexpected token or end of JSON input''
      | Some (v, rest) \<Rightarrow>
          if jsonWs rest = [] then Inr v else Inl ''Unexpected non-whitespace character after JSON'')"

definition exampleContext :: "bool \<Rightarrow> node_context" where
  "exampleContext tolerant =
     \<lparr>httpRequest = exampleEndpoint, jsonParse = exampleParse, continueOnFail = tolerant\<rparr>"

definition exampleCredentials :: credentials where
  "exampleCredentials = \<lparr>rpcEndpoint = Some ''https://example.quiknode.pro/token/'', network = VStr ''ethereum-mainnet''\<rparr>"

definition exampleHash :: string where
  "exampleHash = ''0x88e96d4537bea4d9c05d12549907b32561d3bf31f45aae734cdc119f13406cb6''"

definition exampleItem :: "string \<Rightarrow> node_params" where
  "exampleItem op =
     \<lparr>operation = op, address = exampleAddress, block = None, blockIdentifier = ''latest'',
      fullTransactions = False, txHash = exampleHash, param_to = exampleAddress,
      param_from = None, param_data = None, param_value = None,
      rpcMethod = ''eth_getLogs'', rpcParams = None\<rparr>"

section \<open>Facts about digits and rounding\<close>

lemma bitlen_le: "n < 2 ^ k \<Longrightarrow> bitlen n \<le> k"
proof (induction k arbitrary: n)
  case 0
  then show ?case by (simp add: bitlen.simps)
next
  case (Suc k)
  show ?case
  proof (cases "n \<le> 0")
    case True
    then show ?thesis by (simp add: bitlen.simps)
  next
    case False
    from Suc.prems have "n div 2 < 2 ^ k" by simp
    then have "bitlen (n div 2) \<le> k" by (rule Suc.IH)
    with False show ?thesis by (subst bitlen.simps) simp
  qed
qed

lemma roundDouble_exact:
  assumes "n \<le> 2 ^ 53"
  shows "roundDouble n = Some n"
proof (cases "n < 2 ^ 53")
  case True
  then have "bitlen n \<le> 53" by (rule bitlen_le)
  then show ?thesis by (simp add: roundDouble_def)
next
  case False
  with assms have n: "n = 2 ^ 53" by simp
  have "roundDouble (2 ^ 53) = Some (2 ^ 53)" by code_simp
  with n show ?thesis by simp
qed

lemma toNumber_exact: "\<bar>i\<bar> \<le> 2 ^ 53 \<Longrightarrow> toNumber i = Fin i"
  by (simp add: toNumber_def roundDouble_exact)

lemma digitValue_digitChar_upto: "\<forall>d \<in> set [0..35]. digitValue (digitChar d) = Some d"
  by code_simp

lemma digitValue_digitChar: "0 \<le> d \<Longrightarrow> d < 36 \<Longrightarrow> digitValue (digitChar d) = Some d"
  using digitValue_digitChar_upto by simp

lemma digitValue_nonneg: "digitValue c = Some d \<Longrightarrow> 0 \<le> d"
  by (auto simp: digitValue_def inRange_def split: if_splits)

lemma digitsValue_snoc: "digitsValue r (z @ [c]) = digitsValue r z * r + (case digitValue c of Some d \<Rightarrow> d | None \<Rightarrow> 0)"
  by (simp add: digitsValue_def)

lemma digitsValue_natToString:
  "2 \<le> r \<Longrightarrow> r \<le> 36 \<Longrightarrow> 0 \<le> n \<Longrightarrow> digitsValue r (natToString r n) = n"
proof (induction r n rule: natToString.induct)
  case (1 r n)
  show ?case
  proof (cases "n < r")
    case True
    with 1 show ?thesis
      by (subst natToString.simps) (simp add: digitsValue_def digitValue_digitChar)
  next
    case False
    with 1 have IH: "digitsValue r (natToString r (n div r)) = n div r"
      by (simp add: pos_imp_zdiv_nonneg_iff)
    from 1 have "0 \<le> n mod r" "n mod r < 36" 
      by (simp, smt (verit) pos_mod_bound)
    then have "digitValue (digitChar (n mod r)) = Some (n mod r)" by (rule digitValue_digitChar)
    with False 1 IH show ?thesis
      by (subst natToString.simps) (simp add: digitsValue_snoc)
  qed
qed

lemma lowerHex_digitChar_upto: "\<forall>d \<in> set [0..15]. lowerHexClass (digitChar d)"
  by code_simp

lemma lowerHex_digitChar: "0 \<le> d \<Longrightarrow> d < 16 \<Longrightarrow> lowerHexClass (digitChar d)"
  using lowerHex_digitChar_upto by simp

lemma natToString_16_lower: "list_all lowerHexClass (natToString 16 n)"
proof (induction "16 :: int" n rule: natToString.induct)
  case (1 n)
  show ?case
  proof (cases "n < 0")
    case True
    then show ?thesis by (subst natToString.simps) simp
  next
    case nonneg: False
    show ?thesis
    proof (cases "n < 16")
      case True
      with nonneg show ?thesis by (subst natToString.simps) (simp add: lowerHex_digitChar)
    next
      case False
      with nonneg 1 have "list_all lowerHexClass (natToString 16 (n div 16))" by simp
      moreover have "lowerHexClass (digitChar (n mod 16))" by (rule lowerHex_digitChar) simp_all
      ultimately show ?thesis using False nonneg by (subst natToString.simps) simp
    qed
  qed
qed

lemma digitChar_zero_upto: "\<forall>d \<in> set [1..35]. digitChar d \<noteq> CHR ''0''"
  by code_simp

lemma digitChar_nonzero: "0 < d \<Longrightarrow> d < 36 \<Longrightarrow> digitChar d \<noteq> CHR ''0''"
  using digitChar_zero_upto by simp

lemma natToString_nonempty: "2 \<le> r \<Longrightarrow> 0 \<le> n \<Longrightarrow> natToString r n \<noteq> []"
  by (subst natToString.simps) simp

lemma natToString_zero: "2 \<le> r \<Longrightarrow> natToString r 0 = ''0''"
  by (subst natToString.simps) (simp add: digitChar_def)

lemma natToString_no_leading_zero:
  "2 \<le> r \<Longrightarrow> r \<le> 36 \<Longrightarrow> 0 < n \<Longrightarrow> hd (natToString r n) \<noteq> CHR ''0''"
proof (induction r n rule: natToString.induct)
  case (1 r n)
  show ?case
  proof (cases "n < r")
    case True
    with 1 show ?thesis by (subst natToString.simps) (simp add: digitChar_nonzero)
  next
    case False
    with 1 have pos: "0 < n div r" by (simp add: pos_imp_zdiv_pos_iff)
    with False 1 have "hd (natToString r (n div r)) \<noteq> CHR ''0''" by simp
    moreover from pos 1 have "natToString r (n div r) \<noteq> []" by (simp add: natToString_nonempty)
    ultimately show ?thesis using False 1 by (subst natToString.simps) simp
  qed
qed

lemma digitClass_facts:
  assumes "digitClass c"
  shows "\<not> isWhiteSpace c" "c \<noteq> CHR ''-''" "c \<noteq> CHR ''+''" "isRadixDigit 10 c"
  using assms by (auto simp: digitClass_def inRange_def isWhiteSpace_def isRadixDigit_def digitValue_def)

lemma takeWhile_all: "list_all P xs \<Longrightarrow> takeWhile P xs = xs"
  by (induction xs) auto

lemma digitsValue_nonneg: "0 \<le> r \<Longrightarrow> 0 \<le> digitsValue r z"
proof (induction z rule: rev_induct)
  case Nil
  then show ?case by (simp add: digitsValue_def)
next
  case (snoc c z)
  then show ?case
    by (auto simp: digitsValue_snoc dest: digitValue_nonneg split: option.splits)
qed

lemma parseInt_digits:
  assumes "s \<noteq> []" "list_all digitClass s"
  shows "parseInt s 10 = toNumber (digitsValue 10 s)"
proof -
  from assms obtain c cs where s: "s = c # cs" by (cases s) auto
  with assms have c: "digitClass c" by simp
  from assms have all: "list_all (isRadixDigit 10) s"
    by (simp add: list_all_iff digitClass_facts)
  have tw: "takeWhile (isRadixDigit 10) s = s" using all by (rule takeWhile_all)
  have dw: "dropWhile isWhiteSpace s = s" using digitClass_facts(1)[OF c] s by simp
  have sg: "take 1 s \<noteq> ''-''" "take 1 s \<noteq> ''+''" using digitClass_facts(2,3)[OF c] s by simp_all
  show ?thesis
    unfolding parseInt_def Let_def dw using sg tw assms(1) by (simp del: takeWhile_eq_all_conv)
qed

lemma digits_not_symbolic:
  assumes "s \<noteq> []" "list_all digitClass s"
  shows "s \<notin> set [''latest'', ''earliest'', ''pending'', ''safe'', ''finalized'']"
proof -
  from assms obtain c cs where s: "s = c # cs" and c: "digitClass c" by (cases s) auto
  from c have "c \<notin> set ''lepsf''" by (auto simp: digitClass_def inRange_def)
  with s show ?thesis by auto
qed

lemma toBlockTag_digits:
  assumes "s \<noteq> []" "list_all digitClass s" "digitsValue 10 s \<le> 2 ^ 53"
  shows "toBlockTag s = ''0x'' @ natToString 16 (digitsValue 10 s)"
proof -
  have nn: "0 \<le> digitsValue 10 s" by (rule digitsValue_nonneg) simp
  with assms(3) have "toNumber (digitsValue 10 s) = Fin (digitsValue 10 s)"
    by (intro toNumber_exact) simp
  with nn show ?thesis
    using digits_not_symbolic[OF assms(1,2)] assms(1,2)
    by (simp add: toBlockTag_def parseInt_digits toStringRadix_def del: set_simps list.set)
qed

section \<open>Block tags\<close>

text \<open>
  C3 (amended). \<^verbatim>\<open>toBlockTag\<close> is a total function on strings. Each of the five symbolic tags is
  returned unchanged. A non-empty string of decimal digits whose value is at most \<open>2 ^ 53\<close> is
  mapped to \<^verbatim>\<open>0x\<close> followed by the hexadecimal numeral of that value, in lowercase and
  without leading zeros. Every string that is neither a symbolic tag nor a non-empty digit
  string is returned unchanged.
\<close>

theorem toBlockTag_cases:
  "(t \<in> set [''latest'', ''earliest'', ''pending'', ''safe'', ''finalized''] \<longrightarrow> toBlockTag t = t)
   \<and> (s \<noteq> [] \<and> list_all digitClass s \<and> digitsValue 10 s \<le> 2 ^ 53 \<longrightarrow>
        (\<exists>h. toBlockTag s = ''0x'' @ h
           \<and> h = natToString 16 (digitsValue 10 s)
           \<and> digitsValue 16 h = digitsValue 10 s
           \<and> list_all lowerHexClass h
           \<and> (h = ''0'' \<or> (h \<noteq> [] \<and> hd h \<noteq> CHR ''0''))))
   \<and> (u \<notin> set [''latest'', ''earliest'', ''pending'', ''safe'', ''finalized'']
        \<and> \<not> (u \<noteq> [] \<and> list_all digitClass u) \<longrightarrow> toBlockTag u = u)"
proof (intro conjI impI)
  assume "t \<in> set [''latest'', ''earliest'', ''pending'', ''safe'', ''finalized'']"
  then show "toBlockTag t = t" by (simp add: toBlockTag_def)
next
  assume a: "s \<noteq> [] \<and> list_all digitClass s \<and> digitsValue 10 s \<le> 2 ^ 53"
  define v where "v = digitsValue 10 s"
  have nn: "0 \<le> v" unfolding v_def by (rule digitsValue_nonneg) simp
  have "toBlockTag s = ''0x'' @ natToString 16 v"
    unfolding v_def using a by (intro toBlockTag_digits) simp_all
  moreover have "digitsValue 16 (natToString 16 v) = v"
    using nn by (intro digitsValue_natToString) simp_all
  moreover have "list_all lowerHexClass (natToString 16 v)" by (rule natToString_16_lower)
  moreover have "natToString 16 v = ''0'' \<or> (natToString 16 v \<noteq> [] \<and> hd (natToString 16 v) \<noteq> CHR ''0'')"
  proof (cases "v = 0")
    case True
    then show ?thesis by (simp add: natToString_zero)
  next
    case False
    with nn have "0 < v" by simp
    then show ?thesis by (simp add: natToString_no_leading_zero natToString_nonempty)
  qed
  ultimately show "\<exists>h. toBlockTag s = ''0x'' @ h
           \<and> h = natToString 16 (digitsValue 10 s)
           \<and> digitsValue 16 h = digitsValue 10 s
           \<and> list_all lowerHexClass h
           \<and> (h = ''0'' \<or> (h \<noteq> [] \<and> hd h \<noteq> CHR ''0''))"
    unfolding v_def by blast
next
  assume "u \<notin> set [''latest'', ''earliest'', ''pending'', ''safe'', ''finalized'']
        \<and> \<not> (u \<noteq> [] \<and> list_all digitClass u)"
  then show "toBlockTag u = u" by (auto simp: toBlockTag_def)
qed

theorem toBlockTag_cases_witness:
  "toBlockTag ''latest'' = ''latest'' \<and> toBlockTag ''12'' = ''0xc'' \<and> toBlockTag ''0xabc'' = ''0xabc''"
proof -
  have h1: "''latest'' \<in> set [''latest'', ''earliest'', ''pending'', ''safe'', ''finalized'']"
    by simp
  have h2: "''12'' \<noteq> [] \<and> list_all digitClass ''12'' \<and> digitsValue 10 ''12'' \<le> 2 ^ 53"
    by code_simp
  have h3: "''0xabc'' \<notin> set [''latest'', ''earliest'', ''pending'', ''safe'', ''finalized'']
        \<and> \<not> (''0xabc'' \<noteq> [] \<and> list_all digitClass ''0xabc'')"
    by code_simp
  have v: "natToString 16 (digitsValue 10 ''12'') = ''c''" by code_simp
  from toBlockTag_cases [of "''latest''" "''12''" "''0xabc''"] h1 h2 h3 v
  show ?thesis by auto
qed

theorem toBlockTag_large_decimal_counterexample:
  "''9007199254740993'' \<noteq> [] \<and> list_all digitClass ''9007199254740993''
   \<and> digitsValue 10 ''9007199254740993'' = 9007199254740993
   \<and> ''0x'' @ natToString 16 9007199254740993 = ''0x20000000000001''
   \<and> toBlockTag ''9007199254740993'' = ''0x20000000000000''"
  by code_simp

section \<open>Requests built for an item\<close>

lemma matches0xHex_iff:
  "matches0xHex n s \<longleftrightarrow> (\<exists>h. s = ''0x'' @ h \<and> length h = n \<and> list_all hexClass h)"
proof
  assume "matches0xHex n s"
  then have "s = ''0x'' @ drop 2 s \<and> length (drop 2 s) = n \<and> list_all hexClass (drop 2 s)"
    unfolding matches0xHex_def by (metis append_take_drop_id)
  then show "\<exists>h. s = ''0x'' @ h \<and> length h = n \<and> list_all hexClass h" by blast
next
  assume "\<exists>h. s = ''0x'' @ h \<and> length h = n \<and> list_all hexClass h"
  then show "matches0xHex n s" by (auto simp: matches0xHex_def)
qed

lemma processItem_sent:
  "buildRequest ctx i p = Inr (m, ps) \<Longrightarrow> fst (processItem ctx endpoint net i p) = [makeRequest endpoint m ps i]"
  by (simp add: processItem_def Let_def split: sum.splits)

lemma processItem_invalid:
  "buildRequest ctx i p = Inl e \<Longrightarrow> processItem ctx endpoint net i p = ([], Inl e)"
  by (simp add: processItem_def)

text \<open>
  C5. For operation \<^verbatim>\<open>getBlock\<close> no validation error is raised. If the block identifier is
  \<^verbatim>\<open>0x\<close> followed by exactly 64 hexadecimal digits, the request is \<^verbatim>\<open>eth_getBlockByHash\<close> with
  parameters [identifier, fullTransactions], the identifier unmodified; otherwise it is
  \<^verbatim>\<open>eth_getBlockByNumber\<close> with parameters [toBlockTag(identifier), fullTransactions]. That
  request is the one sent for the item.
\<close>

theorem getBlock_request:
  assumes "operation p = ''getBlock''"
  shows "\<exists>m ps. buildRequest ctx i p = Inr (m, ps)
           \<and> fst (processItem ctx endpoint net i p) = [makeRequest endpoint m ps i]
           \<and> (m, ps) =
               (if (\<exists>h. blockIdentifier p = ''0x'' @ h \<and> length h = 64 \<and> list_all hexClass h)
                then (''eth_getBlockByHash'', [VStr (blockIdentifier p), VBool (fullTransactions p)])
                else (''eth_getBlockByNumber'',
                      [VStr (toBlockTag (blockIdentifier p)), VBool (fullTransactions p)]))"
proof (cases "matches0xHex 64 (blockIdentifier p)")
  case True
  with assms have "buildRequest ctx i p =
      Inr (''eth_getBlockByHash'', [VStr (blockIdentifier p), VBool (fullTransactions p)])"
    by (simp add: buildRequest_def)
  with True show ?thesis
    using processItem_sent matches0xHex_iff by fastforce
next
  case False
  with assms have "buildRequest ctx i p =
      Inr (''eth_getBlockByNumber'', [VStr (toBlockTag (blockIdentifier p)), VBool (fullTransactions p)])"
    by (simp add: buildRequest_def)
  with False show ?thesis
    using processItem_sent matches0xHex_iff by fastforce
qed

theorem getBlock_request_witness:
  "buildRequest (exampleContext True) 0 ((exampleItem ''getBlock'')\<lparr>blockIdentifier := exampleHash, fullTransactions := True\<rparr>)
     = Inr (''eth_getBlockByHash'', [VStr exampleHash, VBool True])
   \<and> buildRequest (exampleContext True) 1 (exampleItem ''getBlock'')
     = Inr (''eth_getBlockByNumber'', [VStr ''latest'', VBool False])"
proof -
  let ?p1 = "(exampleItem ''getBlock'')\<lparr>blockIdentifier := exampleHash, fullTransactions := True\<rparr>"
  let ?p2 = "exampleItem ''getBlock''"
  have o1: "operation ?p1 = ''getBlock''" and o2: "operation ?p2 = ''getBlock''"
    by (simp_all add: exampleItem_def)
  have "matches0xHex 64 (blockIdentifier ?p1)" by code_simp
  then have h1: "\<exists>h. blockIdentifier ?p1 = ''0x'' @ h \<and> length h = 64 \<and> list_all hexClass h"
    by (simp only: matches0xHex_iff)
  have "\<not> matches0xHex 64 (blockIdentifier ?p2)" by code_simp
  then have h2: "\<not> (\<exists>h. blockIdentifier ?p2 = ''0x'' @ h \<and> length h = 64 \<and> list_all hexClass h)"
    by (simp only: matches0xHex_iff simp_thms)
  have t: "toBlockTag ''latest'' = ''latest''" by code_simp
  from getBlock_request [OF o1, where ctx = "exampleContext True" and i = 0] h1
  have "buildRequest (exampleContext True) 0 ?p1 = Inr (''eth_getBlockByHash'', [VStr exampleHash, VBool True])"
    by (auto simp: exampleItem_def)
  moreover from getBlock_request [OF o2, where ctx = "exampleContext True" and i = 1] h2 t
  have "buildRequest (exampleContext True) 1 ?p2 = Inr (''eth_getBlockByNumber'', [VStr ''latest'', VBool False])"
    by (auto simp: exampleItem_def)
  ultimately show ?thesis by simp
qed

text \<open>
  C8. For operation \<^verbatim>\<open>customRpc\<close> the parameter text is parsed first. If it parses to an array,
  the request carries the caller's method string as it is and the parsed array as parameters.
  If it parses to anything else, or does not parse, the item fails before any request is sent,
  with the message \<^verbatim>\<open>Invalid JSON parameters: \<close> followed by the type error or the parse error.
\<close>

theorem customRpc_request:
  assumes "operation p = ''customRpc''" and "text = withDefault (rpcParams p) ''[]''"
  shows "(\<forall>ps. jsonParse ctx text = Inr (VArr ps) \<longrightarrow>
            buildRequest ctx i p = Inr (rpcMethod p, ps)
            \<and> fst (processItem ctx endpoint net i p) = [makeRequest endpoint (rpcMethod p) ps i])
       \<and> (\<forall>v. jsonParse ctx text = Inr v \<and> \<not> isArray v \<longrightarrow>
            processItem ctx endpoint net i p =
              ([], Inl (NodeOperationError ''Invalid JSON parameters: Parameters must be a JSON array'' (Some i))))
       \<and> (\<forall>msg. jsonParse ctx text = Inl msg \<longrightarrow>
            processItem ctx endpoint net i p =
              ([], Inl (NodeOperationError (''Invalid JSON parameters: '' @ msg) (Some i))))"
proof (intro conjI allI impI)
  fix ps assume a: "jsonParse ctx text = Inr (VArr ps)"
  with assms show b: "buildRequest ctx i p = Inr (rpcMethod p, ps)"
    by (simp add: buildRequest_def)
  then show "fst (processItem ctx endpoint net i p) = [makeRequest endpoint (rpcMethod p) ps i]"
    by (rule processItem_sent)
next
  fix v assume "jsonParse ctx text = Inr v \<and> \<not> isArray v"
  with assms have "buildRequest ctx i p =
      Inl (NodeOperationError ''Invalid JSON parameters: Parameters must be a JSON array'' (Some i))"
    by (simp add: buildRequest_def itemError_def)
  then show "processItem ctx endpoint net i p =
              ([], Inl (NodeOperationError ''Invalid JSON parameters: Parameters must be a JSON array'' (Some i)))"
    by (rule processItem_invalid)
next
  fix msg assume "jsonParse ctx text = Inl msg"
  with assms have "buildRequest ctx i p =
      Inl (NodeOperationError (''Invalid JSON parameters: '' @ msg) (Some i))"
    by (simp add: buildRequest_def itemError_def)
  then show "processItem ctx endpoint net i p =
              ([], Inl (NodeOperationError (''Invalid JSON parameters: '' @ msg) (Some i)))"
    by (rule processItem_invalid)
qed

theorem customRpc_request_witness:
  \<open>buildRequest (exampleContext True) 0 ((exampleItem ''customRpc'')\<lparr>rpcParams := Some ''[{"fromBlock":"latest"}]''\<rparr>)
     = Inr (''eth_getLogs'', [VObj [(''fromBlock'', VStr ''latest'')]])
   \<and> processItem (exampleContext True) ''https://e'' VNull 1 ((exampleItem ''customRpc'')\<lparr>rpcParams := Some ''{"fromBlock":"latest"}''\<rparr>)
     = ([], Inl (NodeOperationError ''Invalid JSON parameters: Parameters must be a JSON array'' (Some 1)))
   \<and> processItem (exampleContext True) ''https://e'' VNull 2 ((exampleItem ''customRpc'')\<lparr>rpcParams := Some ''[1,''\<rparr>)
     = ([], Inl (NodeOperationError ''Invalid JSON parameters: Unexpected token or end of JSON input'' (Some 2)))\<close>
proof -
  let ?c = "exampleContext True"
  let ?p1 = \<open>(exampleItem ''customRpc'')\<lparr>rpcParams := Some ''[{"fromBlock":"latest"}]''\<rparr>\<close>
  let ?p2 = \<open>(exampleItem ''customRpc'')\<lparr>rpcParams := Some ''{"fromBlock":"latest"}''\<rparr>\<close>
  let ?p3 = \<open>(exampleItem ''customRpc'')\<lparr>rpcParams := Some ''[1,''\<rparr>\<close>
  have o: "operation ?p1 = ''customRpc''" "operation ?p2 = ''customRpc''" "operation ?p3 = ''customRpc''"
    by (simp_all add: exampleItem_def)
  have m: "rpcMethod ?p1 = ''eth_getLogs''" by (simp add: exampleItem_def)
  have j1: \<open>jsonParse ?c (withDefault (rpcParams ?p1) ''[]'') = Inr (VArr [VObj [(''fromBlock'', VStr ''latest'')]])\<close>
    by code_simp
  have j2: \<open>jsonParse ?c (withDefault (rpcParams ?p2) ''[]'') = Inr (VObj [(''fromBlock'', VStr ''latest'')])
             \<and> \<not> isArray (VObj [(''fromBlock'', VStr ''latest'')])\<close>
    by code_simp
  have j3: \<open>jsonParse ?c (withDefault (rpcParams ?p3) ''[]'') = Inl ''Unexpected token or end of JSON input''\<close>
    by code_simp
  from customRpc_request [OF o(1) refl, where ctx = ?c and i = 0] j1 m
  have "buildRequest ?c 0 ?p1 = Inr (''eth_getLogs'', [VObj [(''fromBlock'', VStr ''latest'')]])"
    by metis
  moreover from customRpc_request [OF o(2) refl, where ctx = ?c and endpoint = "''https://e''" and net = VNull and i = 1] j2
  have "processItem ?c ''https://e'' VNull 1 ?p2
     = ([], Inl (NodeOperationError ''Invalid JSON parameters: Parameters must be a JSON array'' (Some 1)))"
    by blast
  moreover from customRpc_request [OF o(3) refl, where ctx = ?c and endpoint = "''https://e''" and net = VNull and i = 2] j3
  have "processItem ?c ''https://e'' VNull 2 ?p3
     = ([], Inl (NodeOperationError (''Invalid JSON parameters: '' @ ''Unexpected token or end of JSON input'') (Some 2)))"
    by blast
  ultimately show ?thesis by simp
qed

lemma digits_no_0x:
  assumes "list_all digitClass v"
  shows "take 2 v \<noteq> ''0x''"
proof
  assume "take 2 v = ''0x''"
  then have "v = ''0x'' @ drop 2 v" by (metis append_take_drop_id)
  then have "CHR ''x'' \<in> set v" by (metis in_set_conv_decomp append_Cons append_Nil)
  with assms have "digitClass CHR ''x''" by (simp add: list_all_iff)
  then show False by (simp add: digitClass_def inRange_def)
qed

lemma valueField_digits:
  assumes "v \<noteq> []" "v \<noteq> ''0''" "list_all digitClass v" "digitsValue 10 v \<le> 2 ^ 53"
  shows "valueField v = [(''value'', VStr (''0x'' @ natToString 16 (digitsValue 10 v)))]"
proof -
  have nn: "0 \<le> digitsValue 10 v" by (rule digitsValue_nonneg) simp
  with assms(4) have "toNumber (digitsValue 10 v) = Fin (digitsValue 10 v)"
    by (intro toNumber_exact) simp
  with nn assms show ?thesis
    by (simp add: valueField_def digits_no_0x parseInt_digits toStringRadix_def)
qed

text \<open>
  C4 (amended). For operation \<^verbatim>\<open>estimateGas\<close> with a valid \<^verbatim>\<open>to\<close> address and a \<^verbatim>\<open>from\<close> input
  that is empty or a valid address, the request is \<^verbatim>\<open>eth_estimateGas\<close> with the single
  parameter txObject. The object has \<^verbatim>\<open>to\<close> always, \<^verbatim>\<open>from\<close> and \<^verbatim>\<open>data\<close> exactly when
  those inputs are non-empty, and \<^verbatim>\<open>value\<close> exactly when the value input is neither empty
  nor the text \<^verbatim>\<open>0\<close>. A value input starting with \<^verbatim>\<open>0x\<close> is passed unchanged; a string of
  decimal digits whose value is at most \<open>2 ^ 53\<close> is converted to \<^verbatim>\<open>0x\<close> followed by its
  hexadecimal numeral.
\<close>

theorem estimateGas_request:
  assumes "operation p = ''estimateGas''" and "isValidAddress (param_to p)"
    and "from = withDefault (param_from p) []" and "from = [] \<or> isValidAddress from"
    and "data = withDefault (param_data p) []" and "v = withDefault (param_value p) ''0''"
  shows "\<exists>tx. buildRequest ctx i p = Inr (''eth_estimateGas'', [VObj tx])
           \<and> distinct (map fst tx)
           \<and> set (map fst tx) \<subseteq> {''to'', ''from'', ''data'', ''value''}
           \<and> map_of tx ''to'' = Some (VStr (param_to p))
           \<and> map_of tx ''from'' = (if from = [] then None else Some (VStr from))
           \<and> map_of tx ''data'' = (if data = [] then None else Some (VStr data))
           \<and> (map_of tx ''value'' = None \<longleftrightarrow> v = [] \<or> v = ''0'')
           \<and> (take 2 v = ''0x'' \<longrightarrow> map_of tx ''value'' = Some (VStr v))
           \<and> (v \<noteq> [] \<and> v \<noteq> ''0'' \<and> list_all digitClass v \<and> digitsValue 10 v \<le> 2 ^ 53 \<longrightarrow>
                map_of tx ''value'' = Some (VStr (''0x'' @ natToString 16 (digitsValue 10 v))))"
proof -
  define tx where "tx = txObjectBase (param_to p) from data @ valueField v"
  have b: "buildRequest ctx i p = Inr (''eth_estimateGas'', [VObj tx])"
    using assms by (auto simp: buildRequest_def tx_def Let_def)
  have keys: "distinct (map fst tx)" "set (map fst tx) \<subseteq> {''to'', ''from'', ''data'', ''value''}"
    by (auto simp: tx_def txObjectBase_def valueField_def)
  have f1: "map_of tx ''to'' = Some (VStr (param_to p))"
    by (simp add: tx_def txObjectBase_def)
  have f2: "map_of tx ''from'' = (if from = [] then None else Some (VStr from))"
    by (simp add: tx_def txObjectBase_def valueField_def)
  have f3: "map_of tx ''data'' = (if data = [] then None else Some (VStr data))"
    by (simp add: tx_def txObjectBase_def valueField_def)
  have f4: "map_of tx ''value'' = None \<longleftrightarrow> v = [] \<or> v = ''0''"
    by (simp add: tx_def txObjectBase_def valueField_def)
  have f5: "take 2 v = ''0x'' \<longrightarrow> map_of tx ''value'' = Some (VStr v)"
    by (auto simp: tx_def txObjectBase_def valueField_def)
  have f6: "v \<noteq> [] \<and> v \<noteq> ''0'' \<and> list_all digitClass v \<and> digitsValue 10 v \<le> 2 ^ 53 \<longrightarrow>
                map_of tx ''value'' = Some (VStr (''0x'' @ natToString 16 (digitsValue 10 v)))"
    by (auto simp: tx_def txObjectBase_def valueField_digits)
  show ?thesis
    by (rule exI[where x = tx]) (intro conjI b keys f1 f2 f3 f4 f5 f6)
qed

theorem estimateGas_request_witness:
  "\<exists>tx. buildRequest (exampleContext True) 0
           ((exampleItem ''estimateGas'')\<lparr>param_from := Some exampleAddress, param_data := Some ''0xa9059cbb'',
                                          param_value := Some ''1000000''\<rparr>)
         = Inr (''eth_estimateGas'', [VObj tx])
       \<and> map_of tx ''to'' = Some (VStr exampleAddress)
       \<and> map_of tx ''from'' = Some (VStr exampleAddress)
       \<and> map_of tx ''data'' = Some (VStr ''0xa9059cbb'')
       \<and> map_of tx ''value'' = Some (VStr ''0xf4240'')"
proof -
  let ?p = "(exampleItem ''estimateGas'')\<lparr>param_from := Some exampleAddress, param_data := Some ''0xa9059cbb'',
                                    param_value := Some ''1000000''\<rparr>"
  have a: "operation ?p = ''estimateGas''" "isValidAddress (param_to ?p)"
      "withDefault (param_from ?p) [] = [] \<or> isValidAddress (withDefault (param_from ?p) [])"
    by code_simp+
  have d: "withDefault (param_value ?p) ''0'' \<noteq> [] \<and> withDefault (param_value ?p) ''0'' \<noteq> ''0''
       \<and> list_all digitClass (withDefault (param_value ?p) ''0'')
       \<and> digitsValue 10 (withDefault (param_value ?p) ''0'') \<le> 2 ^ 53"
    by code_simp
  have e: "''0x'' @ natToString 16 (digitsValue 10 (withDefault (param_value ?p) ''0'')) = ''0xf4240''"
    by code_simp
  have f: "param_to ?p = exampleAddress" "withDefault (param_from ?p) [] = exampleAddress"
      "withDefault (param_data ?p) [] = ''0xa9059cbb''" "exampleAddress \<noteq> []"
    by (simp_all add: exampleItem_def withDefault_def exampleAddress_def)
  from estimateGas_request [OF a(1,2) refl a(3) refl refl, where ctx = "exampleContext True" and i = 0]
  obtain tx where tx: "buildRequest (exampleContext True) 0 ?p = Inr (''eth_estimateGas'', [VObj tx])"
      "map_of tx ''to'' = Some (VStr (param_to ?p))"
      "map_of tx ''from'' = (if withDefault (param_from ?p) [] = [] then None else Some (VStr (withDefault (param_from ?p) [])))"
      "map_of tx ''data'' = (if withDefault (param_data ?p) [] = [] then None else Some (VStr (withDefault (param_data ?p) [])))"
      "withDefault (param_value ?p) ''0'' \<noteq> [] \<and> withDefault (param_value ?p) ''0'' \<noteq> ''0''
         \<and> list_all digitClass (withDefault (param_value ?p) ''0'')
         \<and> digitsValue 10 (withDefault (param_value ?p) ''0'') \<le> 2 ^ 53 \<longrightarrow>
       map_of tx ''value'' = Some (VStr (''0x'' @ natToString 16 (digitsValue 10 (withDefault (param_value ?p) ''0''))))"
    by blast
  from tx(5) d e have "map_of tx ''value'' = Some (VStr ''0xf4240'')" by simp
  moreover from tx(2,3,4) f have "map_of tx ''to'' = Some (VStr exampleAddress)"
    "map_of tx ''from'' = Some (VStr exampleAddress)" "map_of tx ''data'' = Some (VStr ''0xa9059cbb'')"
    by simp_all
  ultimately show ?thesis using tx(1) by blast
qed

theorem estimateGas_value_counterexample:
  "isValidAddress exampleAddress
   \<and> buildRequest (exampleContext True) 0 ((exampleItem ''estimateGas'')\<lparr>param_value := Some ''00''\<rparr>)
       = Inr (''eth_estimateGas'', [VObj [(''to'', VStr exampleAddress), (''value'', VStr ''0x0'')]])
   \<and> buildRequest (exampleContext True) 0 ((exampleItem ''estimateGas'')\<lparr>param_from := Some ''0x12''\<rparr>)
       = Inl (NodeOperationError ''Invalid 'from' address: 0x12. Must be 42 characters starting with 0x'' (Some 0))
   \<and> buildRequest (exampleContext True) 0 ((exampleItem ''estimateGas'')\<lparr>param_value := Some ''1000000000000000001''\<rparr>)
       = Inr (''eth_estimateGas'', [VObj [(''to'', VStr exampleAddress), (''value'', VStr ''0xde0b6b3a7640000'')]])
   \<and> ''0x'' @ natToString 16 1000000000000000001 = ''0xde0b6b3a7640001''"
  by code_simp

section \<open>The outcome of one item\<close>

lemma handleResponse_error:
  assumes "truthy (getProp response ''error'')"
  shows "handleResponse op m net i response = Inl (rpcError m (getProp response ''error'') i)"
proof -
  from assms have "response \<noteq> VNull" "response \<noteq> VUndefined" by auto
  with assms show ?thesis by (simp add: handleResponse_def)
qed

lemma processItem_response:
  assumes "buildRequest ctx i p = Inr (m, ps)"
    and "httpRequest ctx (makeRequest endpoint m ps i) = Inr response"
  shows "processItem ctx endpoint net i p =
           ([makeRequest endpoint m ps i], handleResponse (operation p) m net i response)"
  using assms by (simp add: processItem_def Let_def)

text \<open>
  C1. If the response body returned for an item carries an \<^verbatim>\<open>error\<close> field that the node's test
  \<^verbatim>\<open>if (response.error)\<close> accepts (every object, even an empty one, passes it; \<^verbatim>\<open>null\<close>, an
  absent field and the empty string do not), the item fails with a NodeApiError although the
  HTTP call itself succeeded: its message is the remote message (or \<^verbatim>\<open>RPC Error\<close> if that is
  missing or empty), its description names the local method, its code is the remote code.
  No result data is produced, whatever the operation and whatever \<^verbatim>\<open>result\<close> the body holds.
\<close>

theorem rpc_error_fails_item:
  assumes "buildRequest ctx i p = Inr (m, ps)"
    and "httpRequest ctx (makeRequest endpoint m ps i) = Inr response"
    and "err = getProp response ''error''"
    and "truthy err"
  shows "processItem ctx endpoint net i p =
           ([makeRequest endpoint m ps i],
            Inl (NodeApiError
                   (if truthy (getProp err ''message'') then getProp err ''message'' else VStr ''RPC Error'')
                   (''RPC method '' @ m @ '' failed: '' @ js_ToString (getProp err ''message''))
                   (getProp err ''code'')
                   i))"
  using assms by (simp add: processItem_response handleResponse_error rpcError_def)

theorem rpc_error_fails_item_witness:
  "processItem (exampleContext True) ''https://e'' (VStr ''ethereum-mainnet'') 3 (exampleItem ''call'') =
     ([makeRequest ''https://e'' ''eth_call'' [VObj [(''to'', VStr exampleAddress)], VStr ''latest''] 3],
      Inl (NodeApiError (VStr ''execution reverted'')
             ''RPC method eth_call failed: execution reverted'' (VNum (Fin 3)) 3))"
proof -
  let ?c = "exampleContext True"
  let ?ps = "[VObj [(''to'', VStr exampleAddress)], VStr ''latest'']"
  let ?resp = "exampleReply (VObj [(''error'', VObj [(''code'', VNum (Fin 3)), (''message'', VStr ''execution reverted'')])])
                 (makeRequest ''https://e'' ''eth_call'' ?ps 3)"
  let ?err = "VObj [(''code'', VNum (Fin 3)), (''message'', VStr ''execution reverted'')]"
  have b: "buildRequest ?c 3 (exampleItem ''call'') = Inr (''eth_call'', ?ps)" by code_simp
  have h: "httpRequest ?c (makeRequest ''https://e'' ''eth_call'' ?ps 3) = Inr ?resp" by code_simp
  have e: "?err = getProp ?resp ''error''" by code_simp
  have t: "truthy ?err" by simp
  have v: "(if truthy (getProp ?err ''message'') then getProp ?err ''message'' else VStr ''RPC Error'') = VStr ''execution reverted''"
    "''RPC method '' @ ''eth_call'' @ '' failed: '' @ js_ToString (getProp ?err ''message'') = ''RPC method eth_call failed: execution reverted''"
    "getProp ?err ''code'' = VNum (Fin 3)"
    by code_simp+
  from rpc_error_fails_item [OF b h e t, where net = "VStr ''ethereum-mainnet''"] v
  show ?thesis by simp
qed

lemma shapeResult_falsy:
  assumes "\<not> truthy r"
  shows "shapeResult op m net r = Inr [(''result'', r), (''method'', VStr m), (''network'', net)]"
  using assms by (simp add: shapeResult_def bindResult_def)

text \<open>
  C9. For each operation with derived fields, if the call returns a response body without a
  JSON-RPC error and its \<^verbatim>\<open>result\<close> is absent, \<^verbatim>\<open>null\<close> or the empty string, the item
  succeeds with exactly the fields \<^verbatim>\<open>result\<close>, \<^verbatim>\<open>method\<close> and \<^verbatim>\<open>network\<close>: no derived
  field is added.
\<close>

theorem no_derived_fields_without_result:
  assumes "operation p \<in> set [''getBalance'', ''getBlockNumber'', ''getGasPrice'', ''getTransactionCount'', ''estimateGas'']"
    and "buildRequest ctx i p = Inr (m, ps)"
    and "httpRequest ctx (makeRequest endpoint m ps i) = Inr response"
    and "response \<noteq> VNull" and "response \<noteq> VUndefined"
    and "\<not> truthy (getProp response ''error'')"
    and "r = getProp response ''result''"
    and "r = VUndefined \<or> r = VNull \<or> r = VStr []"
  shows "processItem ctx endpoint net i p =
           ([makeRequest endpoint m ps i],
            Inr [(''result'', r), (''method'', VStr m), (''network'', net)])"
proof -
  from assms(8) have "\<not> truthy r" by auto
  then have "shapeResult (operation p) m net r = Inr [(''result'', r), (''method'', VStr m), (''network'', net)]"
    by (rule shapeResult_falsy)
  with assms show ?thesis
    by (simp add: processItem_response handleResponse_def)
qed

theorem no_derived_fields_without_result_witness:
  "processItem (exampleContext True) ''https://e'' (VStr ''ethereum-mainnet'') 0 (exampleItem ''getGasPrice'') =
     ([makeRequest ''https://e'' ''eth_gasPrice'' [] 0],
      Inr [(''result'', VNull), (''method'', VStr ''eth_gasPrice''), (''network'', VStr ''ethereum-mainnet'')])"
proof -
  let ?c = "exampleContext True"
  let ?p = "exampleItem ''getGasPrice''"
  let ?resp = "exampleReply (VObj [(''result'', VNull)]) (makeRequest ''https://e'' ''eth_gasPrice'' [] 0)"
  have o: "operation ?p \<in> set [''getBalance'', ''getBlockNumber'', ''getGasPrice'', ''getTransactionCount'', ''estimateGas'']"
    by (simp add: exampleItem_def)
  have b: "buildRequest ?c 0 ?p = Inr (''eth_gasPrice'', [])" by code_simp
  have h: "httpRequest ?c (makeRequest ''https://e'' ''eth_gasPrice'' [] 0) = Inr ?resp" by code_simp
  have n: "?resp \<noteq> VNull" "?resp \<noteq> VUndefined" by (simp_all add: exampleReply_def)
  have e: "\<not> truthy (getProp ?resp ''error'')" by code_simp
  have r: "VNull = getProp ?resp ''result''" by code_simp
  from no_derived_fields_without_result [OF o b h n e r, where net = "VStr ''ethereum-mainnet''"]
  show ?thesis by simp
qed

text \<open>
  C10. If the credential has no \<^verbatim>\<open>rpcEndpoint\<close>, or an empty one, \<^verbatim>\<open>execute\<close> throws the
  configuration error before the loop: no request is sent and no record is emitted, for every
  batch and also when failure tolerance is enabled.
\<close>

theorem missing_endpoint_fails_batch:
  assumes "rpcEndpoint creds = None \<or> rpcEndpoint creds = Some []"
  shows "execute ctx creds items =
           ([], Inl (NodeOperationError ''RPC endpoint is required in credentials'' None))"
  using assms by (auto simp: execute_def)

theorem missing_endpoint_fails_batch_witness:
  "execute (exampleContext True) (exampleCredentials\<lparr>rpcEndpoint := Some []\<rparr>)
           [exampleItem ''getBalance'', exampleItem ''getBlockNumber''] =
     ([], Inl (NodeOperationError ''RPC endpoint is required in credentials'' None))
   \<and> execute (exampleContext True) (exampleCredentials\<lparr>rpcEndpoint := None\<rparr>) [] =
     ([], Inl (NodeOperationError ''RPC endpoint is required in credentials'' None))"
proof -
  have a: "rpcEndpoint (exampleCredentials\<lparr>rpcEndpoint := Some []\<rparr>) = None
           \<or> rpcEndpoint (exampleCredentials\<lparr>rpcEndpoint := Some []\<rparr>) = Some []"
    and b: "rpcEndpoint (exampleCredentials\<lparr>rpcEndpoint := None\<rparr>) = None
           \<or> rpcEndpoint (exampleCredentials\<lparr>rpcEndpoint := None\<rparr>) = Some []"
    by simp_all
  show ?thesis
    using missing_endpoint_fails_batch [OF a] missing_endpoint_fails_batch [OF b] by blast
qed

section \<open>The batch\<close>

lemma runItems_tolerant:
  assumes "continueOnFail ctx"
  shows "runItems ctx e net i ps sent rd =
           (sent @ concat (map (\<lambda>(k, p). fst (processItem ctx e net k p)) (List.enumerate i ps)),
            Inr (rd @ map (\<lambda>(k, p). itemRecord k (snd (processItem ctx e net k p))) (List.enumerate i ps)))"
proof (induction ps arbitrary: i sent rd)
  case Nil
  show ?case by simp
next
  case (Cons p ps)
  obtain reqs outcome where po: "processItem ctx e net i p = (reqs, outcome)"
    by (cases "processItem ctx e net i p")
  show ?case
  proof (cases outcome)
    case (Inl error)
    with po assms show ?thesis by (simp add: Cons.IH itemRecord_def)
  next
    case (Inr resultData)
    with po show ?thesis by (simp add: Cons.IH itemRecord_def)
  qed
qed

text \<open>
  C2. With failure tolerance enabled (and an endpoint configured), \<^verbatim>\<open>execute\<close> returns one
  list with exactly one record per input item, in input order: the record at position \<open>k\<close>
  is paired with item \<open>k\<close> and is determined by that item alone: \<^verbatim>\<open>{error: message}\<close> if
  the item failed at any stage, its result data otherwise. No item's failure changes the
  record of another item.
\<close>

theorem tolerant_batch_index_stable:
  assumes "continueOnFail ctx" and "rpcEndpoint creds = Some endpoint" and "endpoint \<noteq> []"
  shows "\<exists>out. snd (execute ctx creds items) = Inr [out]
           \<and> length out = length items
           \<and> (\<forall>k < length items.
                 out ! k = itemRecord k (snd (processItem ctx endpoint (network creds) k (items ! k)))
                 \<and> pairedItem (out ! k) = k)"
proof -
  define out where
    "out = map (\<lambda>(k, p). itemRecord k (snd (processItem ctx endpoint (network creds) k p))) (List.enumerate 0 items)"
  have "snd (execute ctx creds items) = Inr [out]"
    using assms by (simp add: execute_def runItems_tolerant out_def)
  moreover have "length out = length items" by (simp add: out_def)
  moreover have "\<forall>k < length items.
                 out ! k = itemRecord k (snd (processItem ctx endpoint (network creds) k (items ! k)))
                 \<and> pairedItem (out ! k) = k"
    by (auto simp: out_def nth_enumerate_eq itemRecord_def split: sum.splits)
  ultimately show ?thesis by blast
qed

theorem tolerant_batch_index_stable_witness:
  "snd (execute (exampleContext True) exampleCredentials
          [exampleItem ''getBalance'', (exampleItem ''getBalance'')\<lparr>address := ''0x12''\<rparr>,
           exampleItem ''getBlockNumber'']) =
     Inr [[\<lparr>json = [(''result'', VStr ''0xde0b6b3a7640000''), (''method'', VStr ''eth_getBalance''),
                   (''network'', VStr ''ethereum-mainnet''), (''balanceWei'', VStr ''1000000000000000000''),
                   (''balanceEth'', VStr ''1.000000000000000000'')],
            pairedItem = 0\<rparr>,
           \<lparr>json = [(''error'', VStr ''Invalid Ethereum address: 0x12. Must be 42 characters starting with 0x'')],
            pairedItem = 1\<rparr>,
           \<lparr>json = [(''result'', VStr ''0x10''), (''method'', VStr ''eth_blockNumber''),
                   (''network'', VStr ''ethereum-mainnet''), (''blockNumberDecimal'', VNum (Fin 16))],
            pairedItem = 2\<rparr>]]"
proof -
  let ?c = "exampleContext True"
  let ?e = "''https://example.quiknode.pro/token/''"
  let ?items = "[exampleItem ''getBalance'', (exampleItem ''getBalance'')\<lparr>address := ''0x12''\<rparr>,
                 exampleItem ''getBlockNumber'']"
  have h: "continueOnFail ?c" "rpcEndpoint exampleCredentials = Some ?e" "?e \<noteq> []"
    by (simp_all add: exampleContext_def exampleCredentials_def)
  from tolerant_batch_index_stable [OF h, of ?items]
  obtain out where o: "snd (execute ?c exampleCredentials ?items) = Inr [out]" "length out = 3"
      and nth: "\<And>k. k < 3 \<Longrightarrow>
             out ! k = itemRecord k (snd (processItem ?c ?e (network exampleCredentials) k (?items ! k)))"
    by auto
  have r0: "itemRecord 0 (snd (processItem ?c ?e (network exampleCredentials) 0 (?items ! 0))) =
       \<lparr>json = [(''result'', VStr ''0xde0b6b3a7640000''), (''method'', VStr ''eth_getBalance''),
                   (''network'', VStr ''ethereum-mainnet''), (''balanceWei'', VStr ''1000000000000000000''),
                   (''balanceEth'', VStr ''1.000000000000000000'')],
            pairedItem = 0\<rparr>"
    by code_simp
  have r1: "itemRecord 1 (snd (processItem ?c ?e (network exampleCredentials) 1 (?items ! 1))) =
       \<lparr>json = [(''error'', VStr ''Invalid Ethereum address: 0x12. Must be 42 characters starting with 0x'')],
            pairedItem = 1\<rparr>"
    by code_simp
  have r2: "itemRecord 2 (snd (processItem ?c ?e (network exampleCredentials) 2 (?items ! 2))) =
       \<lparr>json = [(''result'', VStr ''0x10''), (''method'', VStr ''eth_blockNumber''),
                   (''network'', VStr ''ethereum-mainnet''), (''blockNumberDecimal'', VNum (Fin 16))],
            pairedItem = 2\<rparr>"
    by code_simp
  from o(2) obtain a b c where out: "out = [a, b, c]"
    by (metis length_0_conv length_Suc_conv numeral_3_eq_3)
  from nth[of 0] nth[of 1] nth[of 2] r0 r1 r2 out have "out = [
       \<lparr>json = [(''result'', VStr ''0xde0b6b3a7640000''), (''method'', VStr ''eth_getBalance''),
                   (''network'', VStr ''ethereum-mainnet''), (''balanceWei'', VStr ''1000000000000000000''),
                   (''balanceEth'', VStr ''1.000000000000000000'')],
            pairedItem = 0\<rparr>,
       \<lparr>json = [(''error'', VStr ''Invalid Ethereum address: 0x12. Must be 42 characters starting with 0x'')],
            pairedItem = 1\<rparr>,
       \<lparr>json = [(''result'', VStr ''0x10''), (''method'', VStr ''eth_blockNumber''),
                   (''network'', VStr ''ethereum-mainnet''), (''blockNumberDecimal'', VNum (Fin 16))],
            pairedItem = 2\<rparr>]"
    by simp
  with o(1) show ?thesis by simp
qed

lemma map_enumerate_take:
  "k \<le> length xs \<Longrightarrow>
     map (\<lambda>(j, p). f j p) (List.enumerate 0 (take k xs)) = map (\<lambda>j. f j (xs ! j)) [0..<k]"
  by (auto simp: list_eq_iff_nth_eq nth_enumerate_eq)

lemma runItems_successes:
  assumes "\<forall>j < length pre. succeeded (snd (processItem ctx e net (i + j) (pre ! j)))"
  shows "runItems ctx e net i (pre @ rest) sent rd =
           runItems ctx e net (i + length pre) rest
             (sent @ concat (map (\<lambda>(k, p). fst (processItem ctx e net k p)) (List.enumerate i pre)))
             (rd @ map (\<lambda>(k, p). itemRecord k (snd (processItem ctx e net k p))) (List.enumerate i pre))"
  using assms
proof (induction pre arbitrary: i sent rd)
  case Nil
  show ?case by simp
next
  case (Cons p pre)
  from Cons.prems have "succeeded (snd (processItem ctx e net i p))" by fastforce
  then obtain reqs resultData where po: "processItem ctx e net i p = (reqs, Inr resultData)"
    by (cases "processItem ctx e net i p") (auto simp: succeeded_def split: sum.splits)
  from Cons.prems have "\<forall>j < length pre. succeeded (snd (processItem ctx e net (Suc i + j) (pre ! j)))"
    by fastforce
  then show ?case using po by (simp add: Cons.IH itemRecord_def)
qed

lemma runItems_failure:
  assumes "\<not> continueOnFail ctx" and "snd (processItem ctx e net i p) = Inl error"
  shows "runItems ctx e net i (p # rest) sent rd = (sent @ fst (processItem ctx e net i p), Inl error)"
  using assms by (cases "processItem ctx e net i p") simp

text \<open>
  C7. Without failure tolerance, the first item that fails (in validation, in transport or
  with an RPC error) ends \<^verbatim>\<open>execute\<close>: its error is thrown to the caller, no output list is
  returned, the requests sent are those of the items up to the failing one, and the items
  after it play no part.
\<close>

theorem strict_batch_aborts:
  assumes "\<not> continueOnFail ctx" and "rpcEndpoint creds = Some endpoint" and "endpoint \<noteq> []"
    and "k < length items"
    and "\<forall>j < k. succeeded (snd (processItem ctx endpoint (network creds) j (items ! j)))"
    and "snd (processItem ctx endpoint (network creds) k (items ! k)) = Inl error"
  shows "execute ctx creds items =
           (concat (map (\<lambda>j. fst (processItem ctx endpoint (network creds) j (items ! j))) [0..<Suc k]),
            Inl error)
         \<and> execute ctx creds items = execute ctx creds (take (Suc k) items)"
proof -
  let ?net = "network creds"
  have run: "runItems ctx endpoint ?net 0 xs [] [] =
           (concat (map (\<lambda>j. fst (processItem ctx endpoint ?net j (xs ! j))) [0..<Suc k]), Inl error)"
    if len: "k < length xs" and same: "take (Suc k) xs = take (Suc k) items" for xs
  proof -
    have nth: "xs ! j = items ! j" if "j \<le> k" for j
      using that same by (metis le_imp_less_Suc nth_take)
    have split: "xs = take k xs @ (xs ! k) # drop (Suc k) xs"
      using len by (rule id_take_nth_drop)
    have pre: "\<forall>j < length (take k xs). succeeded (snd (processItem ctx endpoint ?net (0 + j) (take k xs ! j)))"
      using assms(5) nth len by simp
    have "runItems ctx endpoint ?net 0 (take k xs @ (xs ! k) # drop (Suc k) xs) [] [] =
            runItems ctx endpoint ?net (0 + length (take k xs)) ((xs ! k) # drop (Suc k) xs)
              ([] @ concat (map (\<lambda>(j, p). fst (processItem ctx endpoint ?net j p)) (List.enumerate 0 (take k xs))))
              ([] @ map (\<lambda>(j, p). itemRecord j (snd (processItem ctx endpoint ?net j p))) (List.enumerate 0 (take k xs)))"
      using pre by (rule runItems_successes)
    also have "length (take k xs) = k" using len by simp
    also have "runItems ctx endpoint ?net (0 + k) ((xs ! k) # drop (Suc k) xs)
              ([] @ concat (map (\<lambda>(j, p). fst (processItem ctx endpoint ?net j p)) (List.enumerate 0 (take k xs))))
              ([] @ map (\<lambda>(j, p). itemRecord j (snd (processItem ctx endpoint ?net j p))) (List.enumerate 0 (take k xs)))
          = (([] @ concat (map (\<lambda>(j, p). fst (processItem ctx endpoint ?net j p)) (List.enumerate 0 (take k xs))))
               @ fst (processItem ctx endpoint ?net (0 + k) (xs ! k)), Inl error)"
      using assms(1,6) nth[of k] by (intro runItems_failure) simp_all
    also have "map (\<lambda>(j, p). fst (processItem ctx endpoint ?net j p)) (List.enumerate 0 (take k xs))
          = map (\<lambda>j. fst (processItem ctx endpoint ?net j (xs ! j))) [0..<k]"
      using len by (intro map_enumerate_take) simp
    finally show ?thesis using split by simp
  qed
  have e1: "execute ctx creds items =
           (concat (map (\<lambda>j. fst (processItem ctx endpoint ?net j (items ! j))) [0..<Suc k]), Inl error)"
    using assms(2,3) run[of items] assms(4) by (simp add: execute_def)
  have "execute ctx creds (take (Suc k) items) =
           (concat (map (\<lambda>j. fst (processItem ctx endpoint ?net j (take (Suc k) items ! j))) [0..<Suc k]), Inl error)"
    using assms(2,3) run[of "take (Suc k) items"] assms(4) by (simp add: execute_def)
  also have "map (\<lambda>j. fst (processItem ctx endpoint ?net j (take (Suc k) items ! j))) [0..<Suc k]
           = map (\<lambda>j. fst (processItem ctx endpoint ?net j (items ! j))) [0..<Suc k]"
    by (rule map_cong) auto
  finally show ?thesis using e1 by simp
qed

theorem strict_batch_aborts_witness:
  "execute (exampleContext False) exampleCredentials
          [exampleItem ''getBalance'', (exampleItem ''getBalance'')\<lparr>address := ''0x12''\<rparr>,
           exampleItem ''getBlockNumber''] =
     ([makeRequest ''https://example.quiknode.pro/token/'' ''eth_getBalance''
         [VStr exampleAddress, VStr ''latest''] 0],
      Inl (NodeOperationError ''Invalid Ethereum address: 0x12. Must be 42 characters starting with 0x'' (Some 1)))"
proof -
  let ?c = "exampleContext False"
  let ?e = "''https://example.quiknode.pro/token/''"
  let ?net = "network exampleCredentials"
  let ?items = "[exampleItem ''getBalance'', (exampleItem ''getBalance'')\<lparr>address := ''0x12''\<rparr>,
                 exampleItem ''getBlockNumber'']"
  let ?err = "NodeOperationError ''Invalid Ethereum address: 0x12. Must be 42 characters starting with 0x'' (Some 1)"
  have h: "\<not> continueOnFail ?c" "rpcEndpoint exampleCredentials = Some ?e" "?e \<noteq> []" "1 < length ?items"
    by (simp_all add: exampleContext_def exampleCredentials_def)
  have "succeeded (snd (processItem ?c ?e ?net 0 (?items ! 0)))" by code_simp
  then have s: "\<forall>j < 1. succeeded (snd (processItem ?c ?e ?net j (?items ! j)))" by simp
  have f: "snd (processItem ?c ?e ?net 1 (?items ! 1)) = Inl ?err" by code_simp
  have q: "concat (map (\<lambda>j. fst (processItem ?c ?e ?net j (?items ! j))) [0..<Suc 1]) =
           [makeRequest ?e ''eth_getBalance'' [VStr exampleAddress, VStr ''latest''] 0]"
    by code_simp
  from strict_batch_aborts [OF h s f] q show ?thesis by simp
qed

section \<open>Shaping of balances\<close>

lemma roundHalfEven_error:
  assumes "0 < den"
  shows "2 * \<bar>roundHalfEven num den * den - num\<bar> \<le> den"
proof -
  define q r where "q = num div den" and "r = num mod den"
  have num: "num = q * den + r" by (simp add: q_def r_def)
  have r: "0 \<le> r" "r < den" using assms by (simp_all add: r_def)
  show ?thesis
  proof (cases "2 * r > den \<or> (2 * r = den \<and> odd q)")
    case True
    then have "roundHalfEven num den = q + 1"
      by (simp add: roundHalfEven_def q_def r_def Let_def)
    then have "roundHalfEven num den * den - num = den - r"
      using num by (simp add: algebra_simps)
    moreover from True have "den \<le> 2 * r" by auto
    ultimately show ?thesis using r by simp
  next
    case False
    then have "roundHalfEven num den = q"
      by (auto simp: roundHalfEven_def q_def r_def Let_def)
    then have "roundHalfEven num den * den - num = - r"
      using num by (simp add: algebra_simps)
    moreover from False have "2 * r \<le> den" by auto
    ultimately show ?thesis using r by simp
  qed
qed

lemma roundHalfUp_eq:
  assumes "0 < den" and "2 * \<bar>p - w * den\<bar> < den"
  shows "roundHalfUp p den = w"
proof -
  define t where "t = 2 * p + den - w * (2 * den)"
  define x where "x = p - w * den"
  from assms(2) have "2 * \<bar>x\<bar> < den" by (simp add: x_def)
  then have "- den < 2 * x" "2 * x < den" by arith+
  moreover have "t = 2 * x + den" by (simp add: t_def x_def algebra_simps)
  ultimately have "0 \<le> t" "t < 2 * den" by simp_all
  moreover have "2 * p + den = 2 * den * w + t" by (simp add: t_def)
  ultimately have "(2 * p + den) div (2 * den) = w"
    by (intro int_div_pos_eq)
  then show ?thesis by (simp add: roundHalfUp_def)
qed

lemma divDouble_small:
  assumes "0 < w" and "w < 2 ^ 52"
  shows "\<exists>sh \<ge> 60. divDouble w (10 ^ 18) = (roundHalfEven (w * 2 ^ sh) (10 ^ 18), - int sh)"
proof -
  have b18: "bitlen (10 ^ 18) = 60" by code_simp
  from assms(2) have bw: "bitlen w \<le> 52" by (rule bitlen_le)
  define E where "E = int (bitlen w) - int (bitlen (10 ^ 18))"
  define E' where "E' = (if (if E \<ge> 0 then w \<ge> 10 ^ 18 * 2 ^ nat E else w * 2 ^ nat (- E) \<ge> 10 ^ 18) then E else E - 1)"
  have "E \<le> - 8" using bw b18 by (simp add: E_def)
  then have "E' \<le> - 8" by (simp add: E'_def)
  then have e: "E' - 52 < 0" "nat (- (E' - 52)) \<ge> 60" "E' - 52 = - int (nat (- (E' - 52)))" by simp_all
  have "divDouble w (10 ^ 18) = (roundHalfEven (w * 2 ^ nat (- (E' - 52))) (10 ^ 18), E' - 52)"
    using assms(1) e(1) unfolding divDouble_def E'_def E_def Let_def by simp
  with e(2,3) show ?thesis by metis
qed

lemma toFixedPos_small:
  assumes "0 < w" and "w < 2 ^ 52" and "sh \<ge> 60"
  shows "roundHalfUp (roundHalfEven (w * 2 ^ sh) (10 ^ 18) * 10 ^ 18) (2 ^ sh) = w"
proof -
  have "2 * \<bar>roundHalfEven (w * 2 ^ sh) (10 ^ 18) * 10 ^ 18 - w * 2 ^ sh\<bar> \<le> (10::int) ^ 18"
    by (rule roundHalfEven_error) simp
  moreover have "(10::int) ^ 18 < 2 ^ 60" by simp
  moreover have "(2::int) ^ 60 \<le> 2 ^ sh" using assms(3) by (intro power_increasing) simp_all
  ultimately have "2 * \<bar>roundHalfEven (w * 2 ^ sh) (10 ^ 18) * 10 ^ 18 - w * 2 ^ sh\<bar> < (2::int) ^ sh"
    by linarith
  then show ?thesis by (intro roundHalfUp_eq) simp_all
qed

lemma int_div_less:
  assumes "0 < r" and "n < k * r"
  shows "n div r < (k::int)"
proof (rule ccontr)
  assume "\<not> n div r < k"
  then have "k \<le> n div r" by simp
  then have "k * r \<le> n div r * r" using assms(1) by (intro mult_right_mono) simp_all
  moreover have "n = n div r * r + n mod r" by simp
  moreover have "0 \<le> n mod r" using assms(1) by simp
  ultimately show False using assms(2) by linarith
qed

lemma length_natToString_le:
  "2 \<le> r \<Longrightarrow> 0 \<le> n \<Longrightarrow> n < r ^ k \<Longrightarrow> 0 < k \<Longrightarrow> length (natToString r n) \<le> k"
proof (induction r n arbitrary: k rule: natToString.induct)
  case (1 r n)
  show ?case
  proof (cases "n < r")
    case True
    with 1 show ?thesis by (subst natToString.simps) simp
  next
    case False
    obtain k' where k: "k = Suc k'" using 1(5) by (cases k) auto
    have "k' \<noteq> 0"
    proof
      assume "k' = 0"
      with k 1(4) False show False by simp
    qed
    moreover have "n div r < r ^ k'"
      using 1(2,4) k by (intro int_div_less) (simp_all add: mult.commute)
    moreover have "0 \<le> n div r" using 1(2,3) by (simp add: pos_imp_zdiv_nonneg_iff)
    ultimately have "length (natToString r (n div r)) \<le> k'"
      using 1 False by (intro 1(1)) simp_all
    with False 1 k show ?thesis by (subst natToString.simps) simp
  qed
qed

lemma scaledFixed_small:
  assumes "0 \<le> w" and "w < 2 ^ 52"
  shows "scaledFixed w 18 = exactScaled w 18"
proof (cases "w = 0")
  case True
  have "scaledFixed 0 18 = exactScaled 0 18" by code_simp
  with True show ?thesis by simp
next
  case False
  with assms have pos: "0 < w" by simp
  from assms have num: "toNumber w = Fin w" by (intro toNumber_exact) simp
  from divDouble_small [OF pos assms(2)] obtain sh where sh: "sh \<ge> 60"
    and dd: "divDouble w (10 ^ 18) = (roundHalfEven (w * 2 ^ sh) (10 ^ 18), - int sh)"
    by blast
  have n: "roundHalfUp (roundHalfEven (w * 2 ^ sh) (10 ^ 18) * 10 ^ 18) (2 ^ sh) = w"
    using pos assms(2) sh by (rule toFixedPos_small)
  define ds where "ds = natToString 10 w"
  have "w < 10 ^ 18" using assms(2) by simp
  then have len: "length ds \<le> 18" unfolding ds_def using assms(1) by (intro length_natToString_le) simp_all
  have ne: "ds \<noteq> []" unfolding ds_def using assms(1) by (intro natToString_nonempty) simp_all
  have neg: "\<not> (0 \<le> - int sh)" using sh by simp
  have fixed: "toFixedPos (roundHalfEven (w * 2 ^ sh) (10 ^ 18), - int sh) 18 =
          ''0'' @ ''.'' @ replicate (18 - length ds) CHR ''0'' @ ds"
  proof -
    have "toFixedPos (roundHalfEven (w * 2 ^ sh) (10 ^ 18), - int sh) 18 =
          (let ds' = replicate (18 + 1 - length ds) CHR ''0'' @ ds
           in take (length ds' - 18) ds' @ ''.'' @ drop (length ds' - 18) ds')"
      using neg n len by (simp add: toFixedPos_def ds_def Let_def)
    also have "replicate (18 + 1 - length ds) CHR ''0'' @ ds = CHR ''0'' # replicate (18 - length ds) CHR ''0'' @ ds"
      using len by (simp add: Suc_diff_le replicate_Suc[symmetric] del: replicate_Suc)
    finally show ?thesis using len by (simp add: Let_def)
  qed
  have "w div 10 ^ 18 = 0" "w mod 10 ^ 18 = w" using assms \<open>w < 10 ^ 18\<close> by simp_all
  then have "exactScaled w 18 = ''0'' @ ''.'' @ replicate (18 - length ds) CHR ''0'' @ ds"
    by (simp add: exactScaled_def ds_def natToString_zero)
  with fixed num dd pos show ?thesis by (simp add: scaledFixed_def)
qed

lemma hexClass_facts:
  assumes "hexClass c"
  shows "\<not> isWhiteSpace c" "isRadixDigit 16 c"
  using assms by (auto simp: hexClass_def inRange_def isWhiteSpace_def isRadixDigit_def digitValue_def)

lemma dropWhile_rev_last:
  assumes "h \<noteq> []" and "\<not> P (last h)"
  shows "dropWhile P (rev (pre @ h)) = rev (pre @ h)"
proof -
  from assms(1) obtain ys y where h: "h = ys @ [y]" by (cases h rule: rev_cases) auto
  with assms(2) show ?thesis by simp
qed

lemma trimString_hex:
  assumes "h \<noteq> []" and "list_all hexClass h"
  shows "trimString (''0x'' @ h) = ''0x'' @ h"
proof -
  have "\<not> isWhiteSpace CHR ''0''" by (simp add: isWhiteSpace_def)
  then have d1: "dropWhile isWhiteSpace (''0x'' @ h) = ''0x'' @ h" by simp
  from assms have "hexClass (last h)" by (simp add: list_all_iff)
  then have "\<not> isWhiteSpace (last h)" by (rule hexClass_facts)
  with assms(1) have "dropWhile isWhiteSpace (rev (''0x'' @ h)) = rev (''0x'' @ h)"
    by (rule dropWhile_rev_last)
  with d1 show ?thesis unfolding trimString_def by (simp only: rev_rev_ident)
qed

lemma stringToBigInt_hex:
  assumes "h \<noteq> []" and "list_all hexClass h"
  shows "stringToBigInt (''0x'' @ h) = Some (digitsValue 16 h)"
proof -
  from assms(2) have "list_all (isRadixDigit 16) h" by (simp add: list_all_iff hexClass_facts)
  with assms(1) have r: "radixLiteral 16 h = Some (digitsValue 16 h)" by (simp add: radixLiteral_def)
  have t: "take 2 (''0x'' @ h) = ''0x''" "drop 2 (''0x'' @ h) = h" "''0x'' @ h \<noteq> []" by simp_all
  show ?thesis
    unfolding stringToBigInt_def trimString_hex[OF assms] Let_def
    by (simp only: t r if_True if_False simp_thms)
qed

lemma toBigInt_hex:
  assumes "h \<noteq> []" and "list_all hexClass h"
  shows "toBigInt (VStr (''0x'' @ h)) = Inr (digitsValue 16 h)"
  using stringToBigInt_hex[OF assms] by (simp add: bigIntOfString_def)

lemma bitlen_upper: "n < 2 ^ bitlen n"
proof (induction n rule: bitlen.induct)
  case (1 n)
  show ?case
  proof (cases "n \<le> 0")
    case True
    then show ?thesis by (subst bitlen.simps) simp
  next
    case False
    with 1 have "n div 2 < 2 ^ bitlen (n div 2)" by simp
    then have "n div 2 + 1 \<le> 2 ^ bitlen (n div 2)" by simp
    moreover have "n < 2 * (n div 2 + 1)" by simp
    ultimately have "n < 2 * 2 ^ bitlen (n div 2)" by linarith
    with False show ?thesis by (subst bitlen.simps) simp
  qed
qed

lemma bitlen_lower: "0 < n \<Longrightarrow> 2 ^ (bitlen n - 1) \<le> n"
proof (induction n rule: bitlen.induct)
  case (1 n)
  from 1(2) have b: "bitlen n = Suc (bitlen (n div 2))" by (subst bitlen.simps) simp
  show ?case
  proof (cases "n div 2 \<le> 0")
    case True
    then have "bitlen (n div 2) = 0" by (subst bitlen.simps) simp
    with b 1(2) show ?thesis by simp
  next
    case False
    then have pos: "0 < n div 2" by simp
    with 1 have IH: "2 ^ (bitlen (n div 2) - 1) \<le> n div 2" by simp
    from pos have "bitlen (n div 2) \<noteq> 0" by (subst bitlen.simps) simp
    then obtain k where k: "bitlen (n div 2) = Suc k" by (cases "bitlen (n div 2)") auto
    with IH have "2 * 2 ^ k \<le> 2 * (n div 2)" by simp
    also have "2 * (n div 2) \<le> n" by simp
    finally show ?thesis using b k by simp
  qed
qed

lemma roundDouble_bound:
  assumes "0 \<le> n"
  shows "\<exists>v. 2 ^ 53 * \<bar>v - n\<bar> \<le> n \<and> roundDouble n = (if v \<ge> 2 ^ 1024 then None else Some v)"
proof (cases "bitlen n \<le> 53")
  case True
  have "n < 2 ^ bitlen n" by (rule bitlen_upper)
  also have "(2::int) ^ bitlen n \<le> 2 ^ 53" using True by (intro power_increasing) simp_all
  finally have "n < 2 ^ 1024" by simp
  with True assms show ?thesis by (intro exI[where x = n]) (simp add: roundDouble_def)
next
  case False
  define sh where "sh = bitlen n - 53"
  define q where "q = n div 2 ^ sh"
  define r where "r = n mod 2 ^ sh"
  define h :: int where "h = 2 ^ (sh - 1)"
  define q' where "q' = (if r > h \<or> (r = h \<and> odd q) then q + 1 else q)"
  define v where "v = q' * 2 ^ sh"
  from False have sh: "0 < sh" "bitlen n = sh + 53" by (simp_all add: sh_def)
  have rd: "roundDouble n = (if v \<ge> 2 ^ 1024 then None else Some v)"
    using False by (simp add: roundDouble_def Let_def v_def q'_def h_def r_def q_def sh_def)
  have n: "n = q * 2 ^ sh + r" unfolding q_def r_def by (rule div_mult_mod_eq[symmetric])
  have r: "0 \<le> r" "r < 2 ^ sh" by (simp_all add: r_def)
  have hh: "2 * h = 2 ^ sh" using sh(1) by (simp add: h_def power_eq_if)
  have err: "\<bar>v - n\<bar> \<le> h"
  proof (cases "r > h \<or> (r = h \<and> odd q)")
    case True
    then have "v - n = 2 ^ sh - r" by (simp add: v_def q'_def n algebra_simps)
    with True r hh show ?thesis by auto
  next
    case False
    then have "v - n = - r" by (simp add: v_def q'_def n)
    moreover from False have "r \<le> h" by auto
    ultimately show ?thesis using r by simp
  qed
  from assms False have "0 < n" by (cases "n = 0") (simp_all add: bitlen.simps)
  then have "2 ^ (bitlen n - 1) \<le> n" by (rule bitlen_lower)
  moreover have "(2::int) ^ (bitlen n - 1) = 2 ^ 53 * h"
  proof -
    from sh(1) obtain s' where "sh = Suc s'" by (cases sh) auto
    with sh(2) show ?thesis by (simp add: h_def power_add)
  qed
  ultimately have "2 ^ 53 * h \<le> n" by simp
  with err have "2 ^ 53 * \<bar>v - n\<bar> \<le> n"
    by (smt (verit) mult_left_mono zero_le_numeral zero_le_power)
  with rd show ?thesis by blast
qed

lemma toNumber_bound:
  assumes "0 \<le> w" and "w < 2 ^ 128"
  shows "\<exists>a. toNumber w = Fin a \<and> 0 \<le> a \<and> 2 ^ 53 * \<bar>a - w\<bar> \<le> w"
proof -
  from roundDouble_bound [OF assms(1)] obtain v where v: "2 ^ 53 * \<bar>v - w\<bar> \<le> w"
    and rd: "roundDouble w = (if v \<ge> 2 ^ 1024 then None else Some v)" by blast
  have "\<bar>v - w\<bar> \<le> 2 ^ 53 * \<bar>v - w\<bar>" by simp
  with v have d: "\<bar>v - w\<bar> \<le> w" by linarith
  then have "0 \<le> v" "v \<le> 2 * w" by linarith+
  moreover have "2 * w < 2 ^ 1024" using assms(2) by simp
  ultimately have "v < 2 ^ 1024" "0 \<le> v" by linarith+
  with rd v assms(1) show ?thesis by (simp add: toNumber_def)
qed

lemma pow2_split: "i \<le> j \<Longrightarrow> (2::int) ^ j = 2 ^ i * 2 ^ (j - i)"
  by (simp add: power_add[symmetric])

lemma roundHalfEven_nonneg: "0 \<le> num \<Longrightarrow> 0 < den \<Longrightarrow> 0 \<le> roundHalfEven num den"
  by (simp add: roundHalfEven_def Let_def pos_imp_zdiv_nonneg_iff)

lemma roundHalfEven_relative:
  assumes "0 < den" and "2 ^ 52 * den \<le> num"
  shows "2 ^ 53 * \<bar>roundHalfEven num den * den - num\<bar> \<le> num"
proof -
  have "2 * \<bar>roundHalfEven num den * den - num\<bar> \<le> den" using assms(1) by (rule roundHalfEven_error)
  then have "2 ^ 52 * (2 * \<bar>roundHalfEven num den * den - num\<bar>) \<le> 2 ^ 52 * den"
    by (intro mult_left_mono) simp_all
  with assms(2) show ?thesis by simp
qed

text \<open>The exponent chosen by \<open>divDouble\<close> puts the scaled quotient at or above \<open>2 ^ 52\<close>.\<close>

lemma ratio_ge_pow2:
  assumes "0 < a" and "0 < b"
  defines "E \<equiv> int (bitlen a) - int (bitlen b)"
  defines "E' \<equiv> (if (if E \<ge> 0 then a \<ge> b * 2 ^ nat E else a * 2 ^ nat (- E) \<ge> b) then E else E - 1)"
  shows "(0 \<le> E' \<longrightarrow> b * 2 ^ nat E' \<le> a) \<and> (E' < 0 \<longrightarrow> b \<le> a * 2 ^ nat (- E'))"
proof (cases "if E \<ge> 0 then a \<ge> b * 2 ^ nat E else a * 2 ^ nat (- E) \<ge> b")
  case True
  then have "E' = E" by (simp add: E'_def)
  with True show ?thesis by (auto split: if_splits)
next
  case False
  then have E': "E' = E - 1" by (simp add: E'_def)
  have la: "2 ^ (bitlen a - 1) \<le> a" using assms(1) by (rule bitlen_lower)
  have lb: "b < 2 ^ bitlen b" by (rule bitlen_upper)
  from assms(1) have la0: "bitlen a \<noteq> 0" by (subst bitlen.simps) simp
  show ?thesis
  proof (cases "bitlen b \<le> bitlen a - 1")
    case True
    then have n: "0 \<le> E'" "nat E' = bitlen a - 1 - bitlen b" using la0 by (simp_all add: E' E_def)
    have "b * 2 ^ (bitlen a - 1 - bitlen b) \<le> 2 ^ bitlen b * 2 ^ (bitlen a - 1 - bitlen b)"
      using lb by (intro mult_right_mono) simp_all
    also have "\<dots> = 2 ^ (bitlen a - 1)" using True by (simp add: pow2_split)
    finally show ?thesis using la n by simp
  next
    case False
    then have n: "E' < 0" "nat (- E') = bitlen b - (bitlen a - 1)" using la0 by (simp_all add: E' E_def)
    have "b \<le> 2 ^ bitlen b" using lb by simp
    also have "(2::int) ^ bitlen b = 2 ^ (bitlen a - 1) * 2 ^ (bitlen b - (bitlen a - 1))"
      using False by (intro pow2_split) simp
    also have "\<dots> \<le> a * 2 ^ (bitlen b - (bitlen a - 1))"
      using la by (intro mult_right_mono) simp_all
    finally show ?thesis using n by simp
  qed
qed

lemma divDouble_error:
  assumes "0 < a" and "0 < b" and "divDouble a b = (m, e)"
  shows "0 \<le> m"
    and "0 \<le> e \<Longrightarrow> 2 ^ 53 * \<bar>m * (b * 2 ^ nat e) - a\<bar> \<le> a"
    and "e < 0 \<Longrightarrow> 2 ^ 53 * \<bar>m * b - a * 2 ^ nat (- e)\<bar> \<le> a * 2 ^ nat (- e)"
proof -
  define E where "E = int (bitlen a) - int (bitlen b)"
  define E' where "E' = (if (if E \<ge> 0 then a \<ge> b * 2 ^ nat E else a * 2 ^ nat (- E) \<ge> b) then E else E - 1)"
  have P: "(0 \<le> E' \<longrightarrow> b * 2 ^ nat E' \<le> a) \<and> (E' < 0 \<longrightarrow> b \<le> a * 2 ^ nat (- E'))"
    unfolding E'_def E_def using assms(1,2) by (rule ratio_ge_pow2)
  have "a \<noteq> 0" using assms(1) by simp
  then have dd: "divDouble a b =
      ((if E' - 52 \<ge> 0 then roundHalfEven a (b * 2 ^ nat (E' - 52))
        else roundHalfEven (a * 2 ^ nat (- (E' - 52))) b), E' - 52)"
    unfolding divDouble_def Let_def E'_def E_def by (simp only: if_False)
  with assms(3) have e: "e = E' - 52" by simp
  from dd assms(3) have m: "m = (if e \<ge> 0 then roundHalfEven a (b * 2 ^ nat e) else roundHalfEven (a * 2 ^ nat (- e)) b)"
    unfolding e by simp
  have norm1: "2 ^ 52 * (b * 2 ^ nat e) \<le> a" if "0 \<le> e"
  proof -
    from that e have "0 \<le> E'" and s: "nat E' = nat e + 52" by simp_all
    with P have le: "b * 2 ^ nat E' \<le> a" by simp
    have "2 ^ 52 * (b * 2 ^ nat e) = b * (2 ^ nat e * 2 ^ 52)" by (simp only: mult.commute mult.assoc)
    also have "\<dots> = b * 2 ^ nat E'" unfolding s by (simp only: power_add)
    finally have eq: "2 ^ 52 * (b * 2 ^ nat e) = b * 2 ^ nat E'" .
    show ?thesis unfolding eq by (rule le)
  qed
  have norm2: "2 ^ 52 * b \<le> a * 2 ^ nat (- e)" if "e < 0"
  proof (cases "0 \<le> E'")
    case True
    with that e have s: "nat E' + nat (- e) = 52" by simp
    from True P have le: "b * 2 ^ nat E' \<le> a" by simp
    have "2 ^ 52 * b = b * 2 ^ (nat E' + nat (- e))" unfolding s by (rule mult.commute)
    also have "\<dots> = b * 2 ^ nat E' * 2 ^ nat (- e)" by (simp only: power_add mult.assoc)
    also have "\<dots> \<le> a * 2 ^ nat (- e)" using le by (intro mult_right_mono) simp_all
    finally show ?thesis .
  next
    case False
    with e have s: "nat (- e) = nat (- E') + 52" by simp
    from False P have le: "b \<le> a * 2 ^ nat (- E')" by simp
    have "2 ^ 52 * b = b * 2 ^ 52" by (rule mult.commute)
    also have "\<dots> \<le> a * 2 ^ nat (- E') * 2 ^ 52" using le by (intro mult_right_mono) simp_all
    also have "\<dots> = a * 2 ^ nat (- e)" unfolding s by (simp only: power_add mult.assoc)
    finally show ?thesis .
  qed
  show "0 \<le> m" using assms(1,2) by (simp add: m roundHalfEven_nonneg)
  show "2 ^ 53 * \<bar>m * (b * 2 ^ nat e) - a\<bar> \<le> a" if "0 \<le> e"
  proof -
    have pos: "0 < b * 2 ^ nat e" using assms(2) by simp
    have mm: "m = roundHalfEven a (b * 2 ^ nat e)" using that by (simp add: m)
    show ?thesis unfolding mm by (rule roundHalfEven_relative[OF pos norm1[OF that]])
  qed
  show "2 ^ 53 * \<bar>m * b - a * 2 ^ nat (- e)\<bar> \<le> a * 2 ^ nat (- e)" if "e < 0"
  proof -
    have mm: "m = roundHalfEven (a * 2 ^ nat (- e)) b" using that by (simp add: m)
    show ?thesis unfolding mm by (rule roundHalfEven_relative[OF assms(2) norm2[OF that]])
  qed
qed

lemma roundHalfUp_error:
  assumes "0 < den"
  shows "2 * \<bar>roundHalfUp p den * den - p\<bar> \<le> den"
proof -
  define n where "n = (2 * p + den) div (2 * den)"
  define r where "r = (2 * p + den) mod (2 * den)"
  have eq: "2 * p + den = n * (2 * den) + r" unfolding n_def r_def by (rule div_mult_mod_eq[symmetric])
  have r: "0 \<le> r" "r < 2 * den" using assms by (simp_all add: r_def)
  define x where "x = n * den - p"
  have "2 * x = den - r" using eq by (simp add: x_def algebra_simps)
  with r have "\<bar>2 * x\<bar> \<le> den" by simp
  then have "2 * \<bar>x\<bar> \<le> den" by (simp add: abs_mult)
  then show ?thesis by (simp add: roundHalfUp_def n_def x_def)
qed

lemma roundHalfUp_nonneg: "0 \<le> p \<Longrightarrow> 0 < den \<Longrightarrow> 0 \<le> roundHalfUp p den"
  by (simp add: roundHalfUp_def pos_imp_zdiv_nonneg_iff)

lemma digitClass_digitChar_upto: "\<forall>d \<in> set [0..9]. digitClass (digitChar d)"
  by code_simp

lemma digitClass_digitChar: "0 \<le> d \<Longrightarrow> d < 10 \<Longrightarrow> digitClass (digitChar d)"
  using digitClass_digitChar_upto by simp

lemma natToString_10_digits: "list_all digitClass (natToString 10 n)"
proof (induction "10 :: int" n rule: natToString.induct)
  case (1 n)
  show ?case
  proof (cases "n < 0")
    case True
    then show ?thesis by (subst natToString.simps) simp
  next
    case nonneg: False
    show ?thesis
    proof (cases "n < 10")
      case True
      with nonneg show ?thesis by (subst natToString.simps) (simp add: digitClass_digitChar)
    next
      case False
      with nonneg 1 have "list_all digitClass (natToString 10 (n div 10))" by simp
      moreover have "digitClass (digitChar (n mod 10))" by (rule digitClass_digitChar) simp_all
      ultimately show ?thesis using False nonneg by (subst natToString.simps) simp
    qed
  qed
qed

lemma digitsValue_zeros: "digitsValue r (replicate k CHR ''0'' @ z) = digitsValue r z"
proof -
  have "foldl (\<lambda>acc c. acc * r + (case digitValue c of Some d \<Rightarrow> d | None \<Rightarrow> 0)) 0 (replicate k CHR ''0'') = 0"
    by (induction k) (simp_all add: digitValue_def inRange_def)
  then show ?thesis by (simp add: digitsValue_def)
qed

text \<open>The shape of a numeral with 18 fractional digits, and the integer its digits spell.\<close>

lemma fixed_shape:
  assumes "0 \<le> n"
  defines "ds \<equiv> natToString 10 n"
  defines "ds' \<equiv> (if length ds \<le> 18 then replicate (18 + 1 - length ds) CHR ''0'' @ ds else ds)"
  shows "\<exists>ip fp. take (length ds' - 18) ds' @ ''.'' @ drop (length ds' - 18) ds' = ip @ ''.'' @ fp
           \<and> ip \<noteq> [] \<and> list_all digitClass ip \<and> length fp = 18 \<and> list_all digitClass fp
           \<and> digitsValue 10 (ip @ fp) = n"
proof -
  have dig: "list_all digitClass ds" unfolding ds_def by (rule natToString_10_digits)
  have z: "digitClass CHR ''0''" by (simp add: digitClass_def inRange_def)
  have val: "digitsValue 10 ds = n" unfolding ds_def using assms(1) by (intro digitsValue_natToString) simp_all
  have len: "18 < length ds'" by (simp add: ds'_def)
  have dig': "list_all digitClass ds'" using dig z by (simp add: ds'_def list_all_iff)
  have val': "digitsValue 10 ds' = n" using val by (simp add: ds'_def digitsValue_zeros)
  let ?ip = "take (length ds' - 18) ds'" and ?fp = "drop (length ds' - 18) ds'"
  have "?ip \<noteq> []" using len by (auto simp: take_eq_Nil)
  moreover have "list_all digitClass ?ip" "list_all digitClass ?fp"
    using dig' by (auto simp: list_all_iff dest: in_set_takeD in_set_dropD)
  moreover have "length ?fp = 18" using len by simp
  moreover have "digitsValue 10 (?ip @ ?fp) = n" using val' by simp
  ultimately show ?thesis by blast
qed

lemma toFixedPos_plain:
  assumes "\<not> (0 \<le> e \<and> 10 ^ 21 \<le> m * 2 ^ nat e)"
    and "n = (if 0 \<le> e then m * 2 ^ nat e * 10 ^ 18 else roundHalfUp (m * 10 ^ 18) (2 ^ nat (- e)))"
    and "0 \<le> n"
  shows "\<exists>ip fp. toFixedPos (m, e) 18 = ip @ ''.'' @ fp
           \<and> ip \<noteq> [] \<and> list_all digitClass ip \<and> length fp = 18 \<and> list_all digitClass fp
           \<and> digitsValue 10 (ip @ fp) = n"
proof -
  have "toFixedPos (m, e) 18 =
      (let ds = natToString 10 n;
           ds' = (if length ds \<le> 18 then replicate (18 + 1 - length ds) CHR ''0'' @ ds else ds)
       in take (length ds' - 18) ds' @ ''.'' @ drop (length ds' - 18) ds')"
    using assms(1) unfolding toFixedPos_def assms(2) Let_def by (auto simp only: split: prod.splits if_splits)
  then show ?thesis using fixed_shape[OF assms(3)] by (simp only: Let_def)
qed

lemma bound_small:
  "2 ^ 53 * \<bar>n - a\<bar> \<le> a \<Longrightarrow> 2 ^ 53 * \<bar>a - w\<bar> \<le> w \<Longrightarrow> w < 2 ^ 128 \<Longrightarrow> n < (10::int) ^ 39"
  by simp (smt (verit))

lemma bound_exact_scale:
  "2 ^ 53 * \<bar>n - a\<bar> \<le> a \<Longrightarrow> 2 ^ 53 * \<bar>a - w\<bar> \<le> w \<Longrightarrow> 0 \<le> w \<Longrightarrow>
     2 ^ 54 * \<bar>n - w\<bar> \<le> 2 ^ 53 + 6 * (w::int)"
  by simp (smt (verit))

lemma bound_two_roundings:
  "2 * \<bar>x - m\<bar> \<le> s \<Longrightarrow> 2 ^ 53 * \<bar>m - a\<bar> \<le> a \<Longrightarrow> 2 ^ 54 * \<bar>x - a\<bar> \<le> 2 ^ 53 * s + 2 * (a::int)"
  by simp (smt (verit))

lemma bound_rounded_scale:
  "2 ^ 54 * \<bar>n - a\<bar> \<le> 2 ^ 53 + 2 * a \<Longrightarrow> 2 ^ 53 * \<bar>a - w\<bar> \<le> w \<Longrightarrow> 0 \<le> w \<Longrightarrow>
     2 ^ 54 * \<bar>n - w\<bar> \<le> 2 ^ 53 + 6 * (w::int)"
  by simp (smt (verit))

lemma scaledFixed_accuracy:
  assumes "0 \<le> w" and "w < 2 ^ 128"
  shows "\<exists>ip fp n. scaledFixed w 18 = ip @ ''.'' @ fp
           \<and> ip \<noteq> [] \<and> list_all digitClass ip \<and> length fp = 18 \<and> list_all digitClass fp
           \<and> digitsValue 10 (ip @ fp) = n
           \<and> 2 ^ 54 * \<bar>n - w\<bar> \<le> 2 ^ 53 + 6 * w"
proof -
  from toNumber_bound [OF assms] obtain a where a: "toNumber w = Fin a" "0 \<le> a"
    and aw: "2 ^ 53 * \<bar>a - w\<bar> \<le> w" by blast
  have sf: "scaledFixed w 18 = toFixedPos (divDouble a (10 ^ 18)) 18"
    using a by (simp add: scaledFixed_def)
  obtain m e where me: "divDouble a (10 ^ 18) = (m, e)" by (cases "divDouble a (10 ^ 18)")
  have key: "\<exists>n. \<not> (0 \<le> e \<and> 10 ^ 21 \<le> m * 2 ^ nat e)
        \<and> n = (if 0 \<le> e then m * 2 ^ nat e * 10 ^ 18 else roundHalfUp (m * 10 ^ 18) (2 ^ nat (- e)))
        \<and> 0 \<le> n \<and> 2 ^ 54 * \<bar>n - w\<bar> \<le> 2 ^ 53 + 6 * w"
  proof (cases "a = 0")
    case True
    with aw have "w = 0" by simp
    moreover from True me have "m = 0" "e = 0" by (simp_all add: divDouble_def)
    ultimately show ?thesis by simp
  next
    case False
    with a(2) have pos: "0 < a" by simp
    have b: "(0::int) < 10 ^ 18" by simp
    note err = divDouble_error [OF pos b me]
    show ?thesis
    proof (cases "0 \<le> e")
      case True
      define n where "n = m * 2 ^ nat e * 10 ^ 18"
      have "m * (10 ^ 18 * 2 ^ nat e) = n" by (simp add: n_def mult.commute mult.left_commute)
      with err(2)[OF True] have na: "2 ^ 53 * \<bar>n - a\<bar> \<le> a" by simp
      have nn: "0 \<le> n" using err(1) by (simp add: n_def)
      have small: "n < 10 ^ 39" using na aw assms(2) by (rule bound_small)
      have "\<not> 10 ^ 21 \<le> m * 2 ^ nat e"
      proof
        assume "10 ^ 21 \<le> m * 2 ^ nat e"
        then have "10 ^ 21 * 10 ^ 18 \<le> m * 2 ^ nat e * (10::int) ^ 18"
          by (intro mult_right_mono) simp_all
        with small show False by (simp add: n_def)
      qed
      moreover have "2 ^ 54 * \<bar>n - w\<bar> \<le> 2 ^ 53 + 6 * w" using na aw assms(1) by (rule bound_exact_scale)
      ultimately show ?thesis using True nn by (auto simp: n_def)
    next
      case False
      then have neg: "e < 0" by simp
      define sh where "sh = nat (- e)"
      define n where "n = roundHalfUp (m * 10 ^ 18) (2 ^ sh)"
      have p2: "(0::int) < 2 ^ sh" by simp
      have e1: "2 * \<bar>n * 2 ^ sh - m * 10 ^ 18\<bar> \<le> 2 ^ sh"
        unfolding n_def using p2 by (rule roundHalfUp_error)
      have e2: "2 ^ 53 * \<bar>m * 10 ^ 18 - a * 2 ^ sh\<bar> \<le> a * 2 ^ sh"
        using err(3)[OF neg] by (simp add: sh_def)
      have nn: "0 \<le> n" unfolding n_def using err(1) by (intro roundHalfUp_nonneg) simp_all
      have "2 ^ 54 * \<bar>n * 2 ^ sh - a * 2 ^ sh\<bar> \<le> 2 ^ 53 * 2 ^ sh + 2 * (a * 2 ^ sh)"
        using e1 e2 by (rule bound_two_roundings)
      moreover have "\<bar>n * 2 ^ sh - a * 2 ^ sh\<bar> = \<bar>n - a\<bar> * 2 ^ sh"
        by (simp add: left_diff_distrib[symmetric] abs_mult)
      ultimately have "(2 ^ 54 * \<bar>n - a\<bar>) * 2 ^ sh \<le> (2 ^ 53 + 2 * a) * 2 ^ sh"
        by (simp add: algebra_simps)
      then have na: "2 ^ 54 * \<bar>n - a\<bar> \<le> 2 ^ 53 + 2 * a"
        using p2 by (simp only: mult_le_cancel_right_pos)
      have "2 ^ 54 * \<bar>n - w\<bar> \<le> 2 ^ 53 + 6 * w" using na aw assms(1) by (rule bound_rounded_scale)
      then show ?thesis using False nn by (auto simp: n_def sh_def)
    qed
  qed
  then obtain n where n: "\<not> (0 \<le> e \<and> 10 ^ 21 \<le> m * 2 ^ nat e)"
      "n = (if 0 \<le> e then m * 2 ^ nat e * 10 ^ 18 else roundHalfUp (m * 10 ^ 18) (2 ^ nat (- e)))"
      "0 \<le> n" "2 ^ 54 * \<bar>n - w\<bar> \<le> 2 ^ 53 + 6 * w"
    by blast
  from toFixedPos_plain [OF n(1,2,3)] obtain ip fp where
    "toFixedPos (m, e) 18 = ip @ ''.'' @ fp" "ip \<noteq> []" "list_all digitClass ip" "length fp = 18"
    "list_all digitClass fp" "digitsValue 10 (ip @ fp) = n" by blast
  with n(4) sf me show ?thesis by auto
qed

text \<open>Rounding to a double at concrete values: up, down, ties to even, and overflow.\<close>

lemma roundDouble_examples:
  "roundDouble (2 ^ 54 + 3) = Some (2 ^ 54 + 4)"
  "roundDouble (2 ^ 54 + 1) = Some (2 ^ 54)"
  "roundDouble (2 ^ 53 + 1) = Some (2 ^ 53)"
  "roundDouble (2 ^ 53 + 3) = Some (2 ^ 53 + 4)"
  "roundDouble (2 ^ 1024 - 2 ^ 970) = None"
  "roundDouble (2 ^ 1024 - 2 ^ 970 - 1) = Some ((2 ^ 53 - 1) * 2 ^ 971)"
  by code_simp+

lemma shapeResult_getBalance:
  assumes "toBigInt r = Inr w" and "truthy r"
  shows "shapeResult ''getBalance'' m net r =
           Inr [(''result'', r), (''method'', VStr m), (''network'', net),
                (''balanceWei'', VStr (bigIntToString w)), (''balanceEth'', VStr (scaledFixed w 18))]"
  using assms by (simp add: shapeResult_def bindResult_def addScaled_def)

lemma one_ether_shaping:
  "digitsValue 16 ''de0b6b3a7640000'' = 1000000000000000000"
  "natToString 10 1000000000000000000 = ''1000000000000000000''"
  "scaledFixed 1000000000000000000 18 = ''1.000000000000000000''"
  by code_simp+

text \<open>
  C6 (amended). For operation \<^verbatim>\<open>getBalance\<close> with an error-free response whose result is \<^verbatim>\<open>0x\<close>
  followed by hexadecimal digits, let \<open>w\<close> be the integer the digits spell. The record carries
  \<^verbatim>\<open>balanceWei\<close>, the exact decimal numeral of \<open>w\<close>, and \<^verbatim>\<open>balanceEth\<close>, computed in double
  precision. For \<open>w\<close> below \<open>2 ^ 128\<close>, \<^verbatim>\<open>balanceEth\<close> is a decimal numeral with exactly 18
  fractional digits, and the integer \<open>n\<close> its digits spell (its value times \<open>10 ^ 18\<close>) differs
  from \<open>w\<close> by at most \<open>1 / 2 + 3 * w / 2 ^ 53\<close>. For \<open>w\<close> below \<open>2 ^ 52\<close> it is the exact
  quotient. The result \<^verbatim>\<open>0xde0b6b3a7640000\<close> gives \<^verbatim>\<open>balanceWei\<close> 1000000000000000000 and
  \<^verbatim>\<open>balanceEth\<close> 1.000000000000000000.
\<close>

theorem getBalance_shaping:
  assumes "operation p = ''getBalance''"
    and "buildRequest ctx i p = Inr (m, ps)"
    and "httpRequest ctx (makeRequest endpoint m ps i) = Inr response"
    and "\<not> truthy (getProp response ''error'')"
    and "getProp response ''result'' = VStr (''0x'' @ h)" and "h \<noteq> []" and "list_all hexClass h"
    and "w = digitsValue 16 h"
  shows "\<exists>wei eth.
           snd (processItem ctx endpoint net i p) =
             Inr [(''result'', VStr (''0x'' @ h)), (''method'', VStr m), (''network'', net),
                  (''balanceWei'', VStr wei), (''balanceEth'', VStr eth)]
         \<and> list_all digitClass wei \<and> digitsValue 10 wei = w
         \<and> (wei = ''0'' \<or> (wei \<noteq> [] \<and> hd wei \<noteq> CHR ''0''))
         \<and> (w < 2 ^ 128 \<longrightarrow>
               (\<exists>ip fp n. eth = ip @ ''.'' @ fp
                  \<and> ip \<noteq> [] \<and> list_all digitClass ip \<and> length fp = 18 \<and> list_all digitClass fp
                  \<and> digitsValue 10 (ip @ fp) = n
                  \<and> 2 ^ 54 * \<bar>n - w\<bar> \<le> 2 ^ 53 + 6 * w))
         \<and> (w < 2 ^ 52 \<longrightarrow> eth = exactScaled w 18)
         \<and> (h = ''de0b6b3a7640000'' \<longrightarrow> wei = ''1000000000000000000'' \<and> eth = ''1.000000000000000000'')"
proof -
  have nn: "0 \<le> w" unfolding assms(8) by (rule digitsValue_nonneg) simp
  from assms(5) have nonnull: "response \<noteq> VNull" "response \<noteq> VUndefined" by auto
  have big: "toBigInt (VStr (''0x'' @ h)) = Inr w"
    unfolding assms(8) using assms(6,7) by (rule toBigInt_hex)
  have "shapeResult ''getBalance'' m net (VStr (''0x'' @ h)) =
           Inr [(''result'', VStr (''0x'' @ h)), (''method'', VStr m), (''network'', net),
                (''balanceWei'', VStr (bigIntToString w)), (''balanceEth'', VStr (scaledFixed w 18))]"
    using big by (rule shapeResult_getBalance) simp
  moreover have "bigIntToString w = natToString 10 w" using nn by (simp add: bigIntToString_def)
  ultimately have "handleResponse (operation p) m net i response =
           Inr [(''result'', VStr (''0x'' @ h)), (''method'', VStr m), (''network'', net),
                (''balanceWei'', VStr (natToString 10 w)), (''balanceEth'', VStr (scaledFixed w 18))]"
    using assms(1,4,5) nonnull by (simp add: handleResponse_def)
  then have rec: "snd (processItem ctx endpoint net i p) =
           Inr [(''result'', VStr (''0x'' @ h)), (''method'', VStr m), (''network'', net),
                (''balanceWei'', VStr (natToString 10 w)), (''balanceEth'', VStr (scaledFixed w 18))]"
    using processItem_response[OF assms(2,3)] by simp
  have d1: "list_all digitClass (natToString 10 w)" by (rule natToString_10_digits)
  have d2: "digitsValue 10 (natToString 10 w) = w"
    using nn by (intro digitsValue_natToString) simp_all
  have d3: "natToString 10 w = ''0'' \<or> (natToString 10 w \<noteq> [] \<and> hd (natToString 10 w) \<noteq> CHR ''0'')"
  proof (cases "w = 0")
    case True
    then show ?thesis by (simp add: natToString_zero)
  next
    case False
    with nn have "0 < w" by simp
    then show ?thesis by (simp add: natToString_no_leading_zero natToString_nonempty)
  qed
  have acc: "w < 2 ^ 128 \<longrightarrow>
               (\<exists>ip fp n. scaledFixed w 18 = ip @ ''.'' @ fp
                  \<and> ip \<noteq> [] \<and> list_all digitClass ip \<and> length fp = 18 \<and> list_all digitClass fp
                  \<and> digitsValue 10 (ip @ fp) = n
                  \<and> 2 ^ 54 * \<bar>n - w\<bar> \<le> 2 ^ 53 + 6 * w)"
    using nn scaledFixed_accuracy by blast
  have ex: "w < 2 ^ 52 \<longrightarrow> scaledFixed w 18 = exactScaled w 18"
    using nn by (simp add: scaledFixed_small)
  have one: "h = ''de0b6b3a7640000'' \<longrightarrow>
               natToString 10 w = ''1000000000000000000'' \<and> scaledFixed w 18 = ''1.000000000000000000''"
    unfolding assms(8) by (auto simp only: one_ether_shaping)
  show ?thesis
    by (rule exI[where x = "natToString 10 w"], rule exI[where x = "scaledFixed w 18"])
       (intro conjI rec d1 d2 d3 acc ex one)
qed

theorem getBalance_shaping_witness:
  "snd (processItem (exampleContext True) ''https://e'' (VStr ''ethereum-mainnet'') 0 (exampleItem ''getBalance'')) =
     Inr [(''result'', VStr ''0xde0b6b3a7640000''), (''method'', VStr ''eth_getBalance''),
          (''network'', VStr ''ethereum-mainnet''),
          (''balanceWei'', VStr ''1000000000000000000''), (''balanceEth'', VStr ''1.000000000000000000'')]
   \<and> snd (processItem (exampleContext True) ''https://e'' (VStr ''ethereum-mainnet'') 1
            ((exampleItem ''getBalance'')\<lparr>address := exampleAddress2\<rparr>)) =
     Inr [(''result'', VStr ''0x38d7ea4c68000''), (''method'', VStr ''eth_getBalance''),
          (''network'', VStr ''ethereum-mainnet''),
          (''balanceWei'', VStr ''1000000000000000''), (''balanceEth'', VStr ''0.001000000000000000'')]"
proof -
  let ?c = "exampleContext True"
  let ?e = "''https://e''"
  let ?net = "VStr ''ethereum-mainnet''"
  let ?p1 = "exampleItem ''getBalance''"
  let ?p2 = "(exampleItem ''getBalance'')\<lparr>address := exampleAddress2\<rparr>"
  let ?ps1 = "[VStr exampleAddress, VStr ''latest'']"
  let ?ps2 = "[VStr exampleAddress2, VStr ''latest'']"
  let ?r1 = "exampleReply (VObj [(''result'', VStr ''0xde0b6b3a7640000'')]) (makeRequest ?e ''eth_getBalance'' ?ps1 0)"
  let ?r2 = "exampleReply (VObj [(''result'', VStr ''0x38d7ea4c68000'')]) (makeRequest ?e ''eth_getBalance'' ?ps2 1)"
  have o: "operation ?p1 = ''getBalance''" "operation ?p2 = ''getBalance''" by (simp_all add: exampleItem_def)
  have b1: "buildRequest ?c 0 ?p1 = Inr (''eth_getBalance'', ?ps1)" by code_simp
  have b2: "buildRequest ?c 1 ?p2 = Inr (''eth_getBalance'', ?ps2)" by code_simp
  have h1: "httpRequest ?c (makeRequest ?e ''eth_getBalance'' ?ps1 0) = Inr ?r1" by code_simp
  have h2: "httpRequest ?c (makeRequest ?e ''eth_getBalance'' ?ps2 1) = Inr ?r2" by code_simp
  have e1: "\<not> truthy (getProp ?r1 ''error'')" and e2: "\<not> truthy (getProp ?r2 ''error'')" by code_simp+
  have g1: "getProp ?r1 ''result'' = VStr (''0x'' @ ''de0b6b3a7640000'')" by code_simp
  have g2: "getProp ?r2 ''result'' = VStr (''0x'' @ ''38d7ea4c68000'')" by code_simp
  have x1: "''de0b6b3a7640000'' \<noteq> []" "list_all hexClass ''de0b6b3a7640000''" by code_simp+
  have x2: "''38d7ea4c68000'' \<noteq> []" "list_all hexClass ''38d7ea4c68000''" by code_simp+
  have v2: "digitsValue 16 ''38d7ea4c68000'' = 1000000000000000"
    "digitsValue 16 ''38d7ea4c68000'' < 2 ^ 52"
    "digitsValue 16 ''38d7ea4c68000'' < 2 ^ 128"
    "exactScaled (digitsValue 16 ''38d7ea4c68000'') 18 = ''0.001000000000000000''"
    by code_simp+
  from getBalance_shaping [OF o(1) b1 h1 e1 g1 x1 refl, where net = ?net]
  have "snd (processItem ?c ?e ?net 0 ?p1) =
     Inr [(''result'', VStr ''0xde0b6b3a7640000''), (''method'', VStr ''eth_getBalance''),
          (''network'', ?net),
          (''balanceWei'', VStr ''1000000000000000000''), (''balanceEth'', VStr ''1.000000000000000000'')]"
    by auto
  moreover from getBalance_shaping [OF o(2) b2 h2 e2 g2 x2 refl, where net = ?net]
  obtain wei eth where r: "snd (processItem ?c ?e ?net 1 ?p2) =
       Inr [(''result'', VStr (''0x'' @ ''38d7ea4c68000'')), (''method'', VStr ''eth_getBalance''),
            (''network'', ?net), (''balanceWei'', VStr wei), (''balanceEth'', VStr eth)]"
      and w: "list_all digitClass wei" "digitsValue 10 wei = digitsValue 16 ''38d7ea4c68000''"
        "wei = ''0'' \<or> (wei \<noteq> [] \<and> hd wei \<noteq> CHR ''0'')"
      and s: "digitsValue 16 ''38d7ea4c68000'' < 2 ^ 128 \<longrightarrow>
               (\<exists>ip fp n. eth = ip @ ''.'' @ fp \<and> length fp = 18)"
      and x: "digitsValue 16 ''38d7ea4c68000'' < 2 ^ 52 \<longrightarrow> eth = exactScaled (digitsValue 16 ''38d7ea4c68000'') 18"
    by blast
  have eth: "eth = ''0.001000000000000000''" using x v2(2,4) by simp
  have "snd (processItem ?c ?e ?net 1 ?p2) =
     Inr [(''result'', VStr ''0x38d7ea4c68000''), (''method'', VStr ''eth_getBalance''),
          (''network'', ?net),
          (''balanceWei'', VStr ''1000000000000000''), (''balanceEth'', VStr ''0.001000000000000000'')]"
    by code_simp
  with r have "wei = ''1000000000000000''" by simp
  with r eth have "snd (processItem ?c ?e ?net 1 ?p2) =
     Inr [(''result'', VStr ''0x38d7ea4c68000''), (''method'', VStr ''eth_getBalance''),
          (''network'', ?net),
          (''balanceWei'', VStr ''1000000000000000''), (''balanceEth'', VStr ''0.001000000000000000'')]"
    by simp
  ultimately show ?thesis by simp
qed

theorem balanceEth_exponent_counterexample:
  "''2f050fe938943acc45f65568000000000'' \<noteq> [] \<and> list_all hexClass ''2f050fe938943acc45f65568000000000''
   \<and> digitsValue 16 ''2f050fe938943acc45f65568000000000'' = 1000000000000000000000000000000000000000
   \<and> snd (processItem (exampleContext True) ''https://e'' (VStr ''ethereum-mainnet'') 0
          ((exampleItem ''getBalance'')\<lparr>address := exampleAddress3\<rparr>)) =
     Inr [(''result'', VStr ''0x2f050fe938943acc45f65568000000000''), (''method'', VStr ''eth_getBalance''),
          (''network'', VStr ''ethereum-mainnet''),
          (''balanceWei'', VStr ''1000000000000000000000000000000000000000''),
          (''balanceEth'', VStr ''1e+21'')]"
  by code_simp

end
